theory Spec2Isabelle
  imports Main
begin

section \<open>Strings\<close>

text \<open>
  The source is TypeScript. A JavaScript string is a sequence of UTF-16 code units; here a
  string is a \<open>char list\<close> and each \<open>char\<close> stands for the code unit with the same number,
  so the model covers the strings whose code units are all below 256 (ASCII and Latin-1).
  \<open>length\<close> counts code units, as \<open>String.prototype.length\<close> and \<open>slice\<close> do. The helpers
  below are the built-ins and the regular expressions the modelled functions call, each
  restricted to this range.
\<close>

text \<open>\<^verbatim>\<open>const toStr = (v, fallback = "") => (v == null ? fallback : String(v))\<close>:
  a value that may be null or undefined is an option.\<close>

definition toStr :: "string option \<Rightarrow> string \<Rightarrow> string" where
  "toStr v fallback = (case v of None \<Rightarrow> fallback | Some s \<Rightarrow> s)"

text \<open>White space of \<open>trim\<close> and of the class \<open>\s\<close>: TAB, LF, VT, FF, CR, SP and NBSP.\<close>

definition isWhiteSpace :: "char \<Rightarrow> bool" where
  "isWhiteSpace c = (let n = (of_char c :: nat) in (9 \<le> n \<and> n \<le> 13) \<or> n = 32 \<or> n = 160)"

definition trim :: "string \<Rightarrow> string" where
  "trim s = rev (dropWhile isWhiteSpace (rev (dropWhile isWhiteSpace s)))"

text \<open>\<open>toLowerCase\<close>: the letters A-Z, and the Latin-1 capitals 0xC0-0xDE other than the
  multiplication sign 0xD7, move up by 32; every other code unit below 256 stays.\<close>

definition lowerChar :: "char \<Rightarrow> char" where
  "lowerChar c = (let n = (of_char c :: nat) in
     if (65 \<le> n \<and> n \<le> 90) \<or> (192 \<le> n \<and> n \<le> 222 \<and> n \<noteq> 215) then char_of (n + 32) else c)"

definition toLowerCase :: "string \<Rightarrow> string" where
  "toLowerCase s = map lowerChar s"

text \<open>The classes \<open>[a-zA-Z0-9]\<close> and, with the flag \<open>i\<close>, \<open>[a-z0-9]\<close>: the ASCII letters and
  digits (case folding without the flag \<open>u\<close> never maps a code unit above 127 into ASCII).\<close>

definition isAlnum :: "char \<Rightarrow> bool" where
  "isAlnum c = (let n = (of_char c :: nat) in
     (48 \<le> n \<and> n \<le> 57) \<or> (65 \<le> n \<and> n \<le> 90) \<or> (97 \<le> n \<and> n \<le> 122))"

text \<open>\<^verbatim>\<open>s.replace(/_/g, " ")\<close>\<close>

definition underscoresToSpaces :: "string \<Rightarrow> string" where
  "underscoresToSpaces s = map (\<lambda>c. if c = CHR ''_'' then CHR '' '' else c) s"

text \<open>\<^verbatim>\<open>s.replace(/[^a-z0-9]/gi, "")\<close>\<close>

definition stripNonAlnum :: "string \<Rightarrow> string" where
  "stripNonAlnum s = filter isAlnum s"

text \<open>\<^verbatim>\<open>s.replace(/\s+/g, "")\<close>\<close>

definition removeWhiteSpace :: "string \<Rightarrow> string" where
  "removeWhiteSpace s = filter (\<lambda>c. \<not> isWhiteSpace c) s"

section \<open>Schema introspection: getColumns\<close>

text \<open>
  A column descriptor of the list, as the metadata API returns it: \<open>name\<close> and
  \<open>displayName\<close> may be missing, \<open>readOnly\<close> and \<open>hidden\<close> are read through \<open>Boolean(..)\<close>,
  and each type facet is present or not (\<open>choice\<close> and \<open>multiChoice\<close> carry their list of
  choices, an absent list being the empty one). The fields carry the prefix \<open>c_\<close>.
\<close>

record column =
  c_name :: "string option"
  c_displayName :: "string option"
  c_readOnly :: bool
  c_hidden :: bool
  c_hyperlinkOrPicture :: bool
  c_text :: bool
  c_number :: bool
  c_dateTime :: bool
  c_boolean :: bool
  c_choice :: "string option list option"
  c_multiChoice :: "string option list option"
  c_lookup :: bool

record meta =
  readOnly :: bool
  hidden :: bool

text \<open>The four dictionaries \<open>getColumns\<close> returns, each by its own keys. The source creates
  them as object literals, so a read of a key that is not an own key finds the member of
  that name which every object inherits from \<open>Object.prototype\<close>, if there is one. For the
  alias index the read is modelled below with those members, since \<open>register\<close> branches
  on it. For the other three dictionaries an inherited member read by the modelled functions
  behaves as a missing key does (it is no kind string, and it has no \<open>readOnly\<close> or
  \<open>hidden\<close> flag), so they stay maps; a column whose internal name is \<open>__proto__\<close>, for
  which an assignment would replace the prototype, is outside the model.\<close>

record columns =
  byLower :: "string \<rightharpoonup> string"
  typeByName :: "string \<rightharpoonup> string"
  choicesByName :: "string \<rightharpoonup> string list"
  metaByName :: "string \<rightharpoonup> meta"

text \<open>
  The names of the members of \<open>Object.prototype\<close> (ECMAScript, with the accessors of its
  Annex B), and what the read \<open>byLower[k]\<close> yields: the own value, else the inherited member
  (a function or an object, never a string), else \<open>undefined\<close>.
\<close>

definition inheritedKey :: "string \<Rightarrow> bool" where
  "inheritedKey k =
     (k = ''constructor'' \<or> k = ''__proto__'' \<or> k = ''hasOwnProperty''
      \<or> k = ''isPrototypeOf'' \<or> k = ''propertyIsEnumerable'' \<or> k = ''toLocaleString''
      \<or> k = ''toString'' \<or> k = ''valueOf'' \<or> k = ''__defineGetter__''
      \<or> k = ''__defineSetter__'' \<or> k = ''__lookupGetter__'' \<or> k = ''__lookupSetter__'')"

datatype slot = Undefined | Own string | Inherited

definition readKey :: "(string \<rightharpoonup> string) \<Rightarrow> string \<Rightarrow> slot" where
  "readKey m k =
     (case m k of
        Some v \<Rightarrow> Own v
      | None \<Rightarrow> if inheritedKey k then Inherited else Undefined)"

text \<open>JavaScript truthiness of such a read: a non-empty string and an inherited member are
  truthy, the empty string and \<open>undefined\<close> are not.\<close>

definition truthy :: "slot \<Rightarrow> bool" where
  "truthy v = (case v of Undefined \<Rightarrow> False | Own s \<Rightarrow> s \<noteq> [] | Inherited \<Rightarrow> True)"

text \<open>
  \<^verbatim>\<open>
  const register = (key, internal) => {
    const normalized = toStr(key).trim().toLowerCase();
    if (!normalized) return;
    if (byLower[normalized]) return; // keep first hit to avoid overriding writable columns with read-only variants
    byLower[normalized] = internal;
  };
  \<close>
  The guard reads the key as above, so a key that names an inherited member is never filed;
  the assignment is reached only for a key that does not.
\<close>

definition register :: "(string \<rightharpoonup> string) \<Rightarrow> string \<Rightarrow> string \<Rightarrow> (string \<rightharpoonup> string)" where
  "register m key internal =
     (let normalized = toLowerCase (trim key) in
      if normalized = [] then m
      else if truthy (readKey m normalized) then m
      else m(normalized \<mapsto> internal))"

text \<open>\<open>Array.from(new Set(xs))\<close>: duplicates removed, the first occurrence kept.\<close>

fun dedupe :: "string list \<Rightarrow> string list \<Rightarrow> string list" where
  "dedupe seen [] = rev seen"
| "dedupe seen (x # xs) = (if x \<in> set seen then dedupe seen xs else dedupe (x # seen) xs)"

text \<open>\<^verbatim>\<open>(choices ?? []).map((choice) => toStr(choice).trim()).filter(Boolean)\<close>, then the set.\<close>

definition rawChoices :: "string option list \<Rightarrow> string list" where
  "rawChoices cs = filter (\<lambda>s. s \<noteq> []) (map (\<lambda>choice. trim (toStr choice [])) cs)"

text \<open>
  The body of the loop \<^verbatim>\<open>for (const c of cols?.value || [])\<close>, in three parts. First the
  registrations:
  \<^verbatim>\<open>
  register(internalName, internalName);
  register(internalName.replace(/_/g, " "), internalName);
  register(internalName.replace(/[^a-z0-9]/gi, ""), internalName);
  const displayName = toStr(c?.displayName);
  if (displayName) {
    register(displayName, internalName);
    register(displayName.replace(/\s+/g, ""), internalName);
    register(displayName.replace(/[^a-z0-9]/gi, ""), internalName);
  }
  \<close>
\<close>

definition registerColumn :: "(string \<rightharpoonup> string) \<Rightarrow> column \<Rightarrow> (string \<rightharpoonup> string)" where
  "registerColumn m c =
     (let internalName = toStr (c_name c) [];
          b1 = register m internalName internalName;
          b2 = register b1 (underscoresToSpaces internalName) internalName;
          b3 = register b2 (stripNonAlnum internalName) internalName;
          displayName = toStr (c_displayName c) []
      in if displayName \<noteq> [] then
           register (register (register b3 displayName internalName)
             (removeWhiteSpace displayName) internalName)
             (stripNonAlnum displayName) internalName
         else b3)"

text \<open>Then the kind, by the first type facet present, in the order of the source's
  \<open>if\<close> chain, and the choices of a choice or multi-choice column.\<close>

definition kindOf :: "column \<Rightarrow> string" where
  "kindOf c =
     (if c_hyperlinkOrPicture c then ''hyperlinkOrPicture''
      else if c_text c then ''text''
      else if c_number c then ''number''
      else if c_dateTime c then ''dateTime''
      else if c_boolean c then ''boolean''
      else if c_choice c \<noteq> None then ''choice''
      else if c_multiChoice c \<noteq> None then ''multiChoice''
      else if c_lookup c then ''lookup''
      else ''unknown'')"

definition choicesOf :: "column \<Rightarrow> string list option" where
  "choicesOf c =
     (if kindOf c = ''choice'' then map_option (\<lambda>cs. dedupe [] (rawChoices cs)) (c_choice c)
      else if kindOf c = ''multiChoice'' then
        map_option (\<lambda>cs. dedupe [] (rawChoices cs)) (c_multiChoice c)
      else None)"

text \<open>
  \<^verbatim>\<open>
  const internalName = toStr(c?.name);
  if (!internalName) continue;
  metaByName[internalName] = { readOnly, hidden };
  ... the registrations, typeByName[internalName] = kind, and for the two choice kinds
  choicesByName[internalName] = Array.from(new Set(rawChoices)) ...
  \<close>
\<close>

definition indexColumn :: "columns \<Rightarrow> column \<Rightarrow> columns" where
  "indexColumn st c =
     (let internalName = toStr (c_name c) [] in
      if internalName = [] then st
      else
        \<lparr>byLower = registerColumn (byLower st) c,
         typeByName = (typeByName st)(internalName \<mapsto> kindOf c),
         choicesByName =
           (case choicesOf c of
              None \<Rightarrow> choicesByName st
            | Some chs \<Rightarrow> (choicesByName st)(internalName \<mapsto> chs)),
         metaByName =
           (metaByName st)(internalName \<mapsto> \<lparr>readOnly = c_readOnly c, hidden = c_hidden c\<rparr>)\<rparr>)"

definition noColumns :: columns where
  "noColumns = \<lparr>byLower = Map.empty, typeByName = Map.empty,
                 choicesByName = Map.empty, metaByName = Map.empty\<rparr>"

text \<open>\<open>getColumns\<close> on the column listing the metadata call returned (the call itself, and
  its failure, belong to the caller's environment).\<close>

definition getColumns :: "column list \<Rightarrow> columns" where
  "getColumns cols = foldl indexColumn noColumns cols"

section \<open>Field selection: chooseField\<close>



section \<open>Formatting the photo column: formatPhotoValue\<close>

text \<open>\<open>xs.join(sep)\<close>\<close>

fun joinWith :: "string \<Rightarrow> string list \<Rightarrow> string" where
  "joinWith sep [] = []"
| "joinWith sep [x] = x"
| "joinWith sep (x # y # ys) = x @ sep @ joinWith sep (y # ys)"

text \<open>
  \<open>JSON.stringify\<close> on an array of strings, after the ECMAScript operation QuoteJSONString:
  the quotation mark (0x22) and the reverse solidus (0x5C) are escaped with a reverse
  solidus, the control characters 8, 9, 10, 12 and 13 become \<open>\b \t \n \f \r\<close>, every other
  code unit below 0x20 becomes \<open>\u00XX\<close> in lower-case hexadecimal, and every other code
  unit of the modelled range is copied. The elements are separated by a comma, with no
  white space.
\<close>

definition hexDigit :: "nat \<Rightarrow> char" where
  "hexDigit n = (if n < 10 then char_of (48 + n) else char_of (87 + n))"

definition quoteChar :: "char \<Rightarrow> string" where
  "quoteChar c =
     (if c = CHR 0x22 then [CHR 0x5C, CHR 0x22]
      else if c = CHR 0x5C then [CHR 0x5C, CHR 0x5C]
      else if c = CHR 0x08 then [CHR 0x5C, CHR ''b'']
      else if c = CHR 0x09 then [CHR 0x5C, CHR ''t'']
      else if c = CHR 0x0A then [CHR 0x5C, CHR ''n'']
      else if c = CHR 0x0C then [CHR 0x5C, CHR ''f'']
      else if c = CHR 0x0D then [CHR 0x5C, CHR ''r'']
      else if (of_char c :: nat) < 32 then
        [CHR 0x5C, CHR ''u'', CHR ''0'', CHR ''0'',
         hexDigit ((of_char c :: nat) div 16), hexDigit ((of_char c :: nat) mod 16)]
      else [c])"

definition quoteJSONString :: "string \<Rightarrow> string" where
  "quoteJSONString s = CHR 0x22 # concat (map quoteChar s) @ [CHR 0x22]"

definition JSON_stringify :: "string list \<Rightarrow> string" where
  "JSON_stringify xs = ''['' @ joinWith '','' (map quoteJSONString xs) @ '']''"

text \<open>
  \<^verbatim>\<open>
  const t = typeByName[fieldName];
  if (t === "hyperlinkOrPicture") { return urls[0] || ""; }
  return JSON.stringify(urls);
  \<close>
\<close>

definition formatPhotoValue :: "(string \<rightharpoonup> string) \<Rightarrow> string \<Rightarrow> string list \<Rightarrow> string" where
  "formatPhotoValue tbn fieldName urls =
     (if tbn fieldName = Some ''hyperlinkOrPicture'' then
        (case urls of [] \<Rightarrow> [] | u # _ \<Rightarrow> u)
      else JSON_stringify urls)"

text \<open>
  \<open>JSON.parse\<close>, for the texts that denote an array of strings (the grammar of ECMA-404:
  white space is SP, TAB, LF and CR; a string runs to the next unescaped quotation mark, may
  not hold a raw control character, and its escapes are \<open>\" \\ \/ \b \f \n \r \t\<close> and
  \<open>\uXXXX\<close>). Any other text, and an escape that names a code unit outside the
  modelled range, gives \<open>None\<close>.
\<close>

definition isJsonWs :: "char \<Rightarrow> bool" where
  "isJsonWs c = (c = CHR 0x20 \<or> c = CHR 0x09 \<or> c = CHR 0x0A \<or> c = CHR 0x0D)"

definition skipWs :: "string \<Rightarrow> string" where
  "skipWs s = dropWhile isJsonWs s"

definition unhex :: "char \<Rightarrow> nat option" where
  "unhex c = (let n = (of_char c :: nat) in
     if 48 \<le> n \<and> n \<le> 57 then Some (n - 48)
     else if 97 \<le> n \<and> n \<le> 102 then Some (n - 87)
     else if 65 \<le> n \<and> n \<le> 70 then Some (n - 55)
     else None)"

definition unicodeEscape :: "char \<Rightarrow> char \<Rightarrow> char \<Rightarrow> char \<Rightarrow> char option" where
  "unicodeEscape h1 h2 h3 h4 =
     (case (unhex h1, unhex h2, unhex h3, unhex h4) of
        (Some a, Some b, Some c, Some d) \<Rightarrow>
          (let n = 4096 * a + 256 * b + 16 * c + d in if n < 256 then Some (char_of n) else None)
      | _ \<Rightarrow> None)"

definition simpleEscape :: "char \<Rightarrow> char option" where
  "simpleEscape e =
     (if e = CHR 0x22 then Some (CHR 0x22)
      else if e = CHR 0x5C then Some (CHR 0x5C)
      else if e = CHR ''/'' then Some (CHR ''/'')
      else if e = CHR ''b'' then Some (CHR 0x08)
      else if e = CHR ''f'' then Some (CHR 0x0C)
      else if e = CHR ''n'' then Some (CHR 0x0A)
      else if e = CHR ''r'' then Some (CHR 0x0D)
      else if e = CHR ''t'' then Some (CHR 0x09)
      else None)"

text \<open>The characters of a string after its opening quotation mark: the decoded string and
  the text after the closing quotation mark.\<close>

fun parseStringBody :: "string \<Rightarrow> (string \<times> string) option" where
  "parseStringBody [] = None"
| "parseStringBody (c # cs) =
     (if c = CHR 0x22 then Some ([], cs)
      else if c = CHR 0x5C then
        (case cs of
           [] \<Rightarrow> None
         | e # es \<Rightarrow>
             if e = CHR ''u'' then
               (case es of
                  h1 # h2 # h3 # h4 # r \<Rightarrow>
                    (case unicodeEscape h1 h2 h3 h4 of
                       None \<Rightarrow> None
                     | Some ch \<Rightarrow> map_option (\<lambda>(v, rest). (ch # v, rest)) (parseStringBody r))
                | _ \<Rightarrow> None)
             else
               (case simpleEscape e of
                  None \<Rightarrow> None
                | Some ch \<Rightarrow> map_option (\<lambda>(v, rest). (ch # v, rest)) (parseStringBody es)))
      else if (of_char c :: nat) < 32 then None
      else map_option (\<lambda>(v, rest). (c # v, rest)) (parseStringBody cs))"

text \<open>The elements of a non-empty array, from the first element on.\<close>

function parseElements :: "string \<Rightarrow> string list option" where
  "parseElements s =
     (case skipWs s of
        [] \<Rightarrow> None
      | c # cs \<Rightarrow>
          if c = CHR 0x22 then
            (case parseStringBody cs of
               None \<Rightarrow> None
             | Some (v, r) \<Rightarrow>
                 (case skipWs r of
                    [] \<Rightarrow> None
                  | d # ds \<Rightarrow>
                      if d = CHR '','' then map_option (\<lambda>vs. v # vs) (parseElements ds)
                      else if d = CHR '']'' then (if skipWs ds = [] then Some [v] else None)
                      else None))
          else None)"
  by pat_completeness auto
termination
proof (relation "measure length")
  show "wf (measure length)" by simp
next
  fix s :: string and c cs x2 v r d ds
  assume a: "skipWs s = c # cs" "parseStringBody cs = Some x2" "(v, r) = x2" "skipWs r = d # ds"
  have body: "length r' < length s'" if "parseStringBody s' = Some (v', r')" for s' v' r'
    using that
  proof (induction s' arbitrary: v' r' rule: parseStringBody.induct)
    case 1
    then show ?case by simp
  next
    case (2 c cs)
    then show ?case
      by (fastforce split: if_splits list.splits option.splits)
  qed
  have "length ds < length r"
    using a(4) length_dropWhile_le [of isJsonWs r] by (simp add: skipWs_def)
  moreover have "length r < length cs" using a(2,3) body by auto
  moreover have "length cs < length s"
    using a(1) length_dropWhile_le [of isJsonWs s] by (simp add: skipWs_def)
  ultimately show "(ds, s) \<in> measure length" by simp
qed

declare parseElements.simps [simp del]

definition JSON_parse :: "string \<Rightarrow> string list option" where
  "JSON_parse s =
     (case skipWs s of
        [] \<Rightarrow> None
      | c # cs \<Rightarrow>
          if c = CHR ''['' then
            (case skipWs cs of
               [] \<Rightarrow> None
             | d # ds \<Rightarrow>
                 if d = CHR '']'' then (if skipWs ds = [] then Some [] else None)
                 else parseElements cs)
          else None)"

section \<open>Paths, numbers and dates\<close>

text \<open>A pattern anchored at both ends, \<^verbatim>\<open>replace(/^X+|X+$/g, "")\<close>, drops the leading and the
  trailing run of the class \<open>X\<close>; \<open>trimSlashes\<close> is
  \<^verbatim>\<open>toStr(p).replace(/^\/+|\/+$/g, "")\<close>.\<close>

definition stripBoth :: "(char \<Rightarrow> bool) \<Rightarrow> string \<Rightarrow> string" where
  "stripBoth P s = rev (dropWhile P (rev (dropWhile P s)))"

definition trimSlashes :: "string \<Rightarrow> string" where
  "trimSlashes p = stripBoth (\<lambda>c. c = CHR ''/'') p"

text \<open>\<^verbatim>\<open>replace(/X+/g, r)\<close> for a class \<open>X\<close> and a single character \<open>r\<close>: every maximal run of
  \<open>X\<close> becomes one \<open>r\<close>. With \<open>X\<close> the slash and \<open>r\<close> the slash it is also
  \<^verbatim>\<open>replace(/\/{2,}/g, "/")\<close>, a run of one slash being replaced by itself.\<close>

fun replaceRuns :: "(char \<Rightarrow> bool) \<Rightarrow> char \<Rightarrow> string \<Rightarrow> string" where
  "replaceRuns P r [] = []"
| "replaceRuns P r [c] = (if P c then [r] else [c])"
| "replaceRuns P r (c # d # cs) =
     (if P c then (if P d then replaceRuns P r (d # cs) else r # replaceRuns P r (d # cs))
      else c # replaceRuns P r (d # cs))"

text \<open>\<open>s.split(sep)\<close> for a separator of one character: never the empty list.\<close>

fun split :: "char \<Rightarrow> string \<Rightarrow> string list" where
  "split sep [] = [[]]"
| "split sep (c # cs) =
     (if c = sep then [] # split sep cs
      else (case split sep cs of [] \<Rightarrow> [[c]] | w # ws \<Rightarrow> (c # w) # ws))"

text \<open>\<open>String(n)\<close> for a natural number and for an integer: decimal digits, with a minus
  sign for a negative integer.\<close>

fun String_nat :: "nat \<Rightarrow> string" where
  "String_nat n = (if n < 10 then [char_of (48 + n)] else String_nat (n div 10) @ [char_of (48 + n mod 10)])"

declare String_nat.simps [simp del]

definition String_int :: "int \<Rightarrow> string" where
  "String_int i = (if i < 0 then CHR ''-'' # String_nat (nat (- i)) else String_nat (nat i))"

text \<open>\<open>s.padStart(n, c)\<close> for a filler of one character.\<close>

definition padStart :: "nat \<Rightarrow> char \<Rightarrow> string \<Rightarrow> string" where
  "padStart n c s = replicate (n - length s) c @ s"

text \<open>The local calendar fields of a \<open>Date\<close>, named after their getters. \<open>getMonth\<close> counts
  from 0. A valid date has these fields in their calendar ranges; the invalid date, whose
  getters return \<open>NaN\<close>, is outside the model (the source passes \<open>new Date()\<close>). File sizes
  and byte offsets are natural numbers: they stay below \<open>2^53\<close>, where the arithmetic of
  JavaScript numbers is exact.\<close>

record stamp =
  getFullYear :: int
  getMonth :: nat
  getDate :: nat
  getHours :: nat
  getMinutes :: nat
  getSeconds :: nat

definition validStamp :: "stamp \<Rightarrow> bool" where
  "validStamp st = (getMonth st < 12 \<and> 0 < getDate st \<and> getDate st < 32 \<and> getHours st < 24
     \<and> getMinutes st < 60 \<and> getSeconds st < 60)"

section \<open>The remote file store\<close>

text \<open>
  A request is recorded by what it addresses rather than by the text of its URL: the
  source builds \<^verbatim>\<open>/drives/${driveId}/root:/${encodeURI(path)}\<close> and its variants, and the
  store resolves that text back to the drive and the path, so the address keeps the drive
  id and the path themselves.
\<close>

datatype address =
    DriveItem string string
  | RootChildren string
  | ItemChildren string string
  | ItemContent string string
  | ItemUploadSession string string

text \<open>The requests the modelled functions issue. \<open>POST_folder\<close> carries the \<open>name\<close> of the
  body \<^verbatim>\<open>{ name, folder: {}, "@microsoft.graph.conflictBehavior": "replace" }\<close>;
  \<open>PUT_chunk\<close> carries the upload URL, the headers \<open>Content-Length\<close> and \<open>Content-Range\<close>,
  and the two bounds of \<open>file.slice(start, end)\<close>.\<close>

datatype call =
    GET address
  | POST_folder address string
  | PUT_content address
  | POST_session address
  | PUT_chunk string string string nat nat

datatype error =
    RequestFailed call
  | FetchFailed string
  | UploadChunkFailed nat string string
  | MissingPhotoColumn
  | NoFilesSelected

text \<open>
  The store holds the folders that exist, as pairs of a drive id and a path below the
  drive's root, and the folders whose creation it rejects. A read of a folder succeeds
  exactly when the folder exists. A create in a children collection adds the child (with
  the conflict behaviour "replace" an existing folder stays one), or fails when the store
  rejects it.
\<close>

record remote =
  folders :: "(string \<times> string) set"
  refuses :: "(string \<times> string) set"

definition sgraph_get :: "remote \<Rightarrow> address \<Rightarrow> bool" where
  "sgraph_get w a = (case a of DriveItem d p \<Rightarrow> (d, p) \<in> folders w | _ \<Rightarrow> False)"

definition childOf :: "address \<Rightarrow> string \<Rightarrow> (string \<times> string) option" where
  "childOf a nm =
     (case a of
        RootChildren d \<Rightarrow> Some (d, nm)
      | ItemChildren d p \<Rightarrow> Some (d, p @ ''/'' @ nm)
      | _ \<Rightarrow> None)"

definition sgraph_post :: "remote \<Rightarrow> address \<Rightarrow> string \<Rightarrow> error + remote" where
  "sgraph_post w a nm =
     (case childOf a nm of
        None \<Rightarrow> Inl (RequestFailed (POST_folder a nm))
      | Some f \<Rightarrow>
          if f \<in> refuses w then Inl (RequestFailed (POST_folder a nm))
          else Inr (w\<lparr>folders := insert f (folders w)\<rparr>))"

text \<open>
  \<^verbatim>\<open>
  function childrenEndpoint(driveId, parentPath) {
    const clean = trimSlashes(parentPath);
    return clean ? `/drives/${driveId}/root:/${encodeURI(clean)}:/children`
                 : `/drives/${driveId}/root/children`;
  }
  \<close>
\<close>

definition childrenEndpoint :: "string \<Rightarrow> string \<Rightarrow> address" where
  "childrenEndpoint driveId parentPath =
     (let clean = trimSlashes parentPath in
      if clean \<noteq> [] then ItemChildren driveId clean else RootChildren driveId)"

section \<open>Folder provisioning: ensureFolder\<close>

text \<open>
  The loop \<^verbatim>\<open>for (const raw of combined.split("/"))\<close>, with \<open>parentPath\<close> as its state:
  \<^verbatim>\<open>
  const segment = raw.trim();
  if (!segment) continue;
  const currentPath = parentPath ? `${parentPath}/${segment}` : segment;
  try { await sgraph.get(`/drives/${driveId}/root:/${encodeURI(currentPath)}`); }
  catch {
    const endpoint = childrenEndpoint(driveId, parentPath);
    await sgraph.post(endpoint, { name: segment, folder: {}, ... });
  }
  parentPath = currentPath;
  \<close>
  The result is the outcome, the store afterwards and the requests issued, in order.
\<close>

fun ensureSegments ::
  "string \<Rightarrow> string \<Rightarrow> string list \<Rightarrow> remote \<Rightarrow> (error + unit) \<times> remote \<times> call list" where
  "ensureSegments driveId parentPath [] w = (Inr (), w, [])"
| "ensureSegments driveId parentPath (raw # rest) w =
     (let segment = trim raw in
      if segment = [] then ensureSegments driveId parentPath rest w
      else
        let currentPath = (if parentPath \<noteq> [] then parentPath @ ''/'' @ segment else segment);
            read = GET (DriveItem driveId currentPath)
        in
          if sgraph_get w (DriveItem driveId currentPath) then
            (case ensureSegments driveId currentPath rest w of
               (res, w', cs) \<Rightarrow> (res, w', read # cs))
          else
            let endpoint = childrenEndpoint driveId parentPath in
            (case sgraph_post w endpoint segment of
               Inl e \<Rightarrow> (Inl e, w, [read, POST_folder endpoint segment])
             | Inr w1 \<Rightarrow>
                 (case ensureSegments driveId currentPath rest w1 of
                    (res, w', cs) \<Rightarrow> (res, w', read # POST_folder endpoint segment # cs))))"

text \<open>
  \<^verbatim>\<open>
  const year = String(stamp.getFullYear());
  const month = String(stamp.getMonth() + 1).padStart(2, "0");
  const combined = trimSlashes(`${toStr(baseFolderPath)}/${year}/${month}`).replace(/\/{2,}/g, "/");
  ...
  return `${year}/${month}`;
  \<close>
\<close>

definition yearOf :: "stamp \<Rightarrow> string" where
  "yearOf st = String_int (getFullYear st)"

definition monthOf :: "stamp \<Rightarrow> string" where
  "monthOf st = padStart 2 (CHR ''0'') (String_nat (getMonth st + 1))"

definition combinedPath :: "string option \<Rightarrow> stamp \<Rightarrow> string" where
  "combinedPath baseFolderPath st =
     replaceRuns (\<lambda>c. c = CHR ''/'') (CHR ''/'')
       (trimSlashes (toStr baseFolderPath [] @ ''/'' @ yearOf st @ ''/'' @ monthOf st))"

definition ensureFolder ::
  "string \<Rightarrow> string option \<Rightarrow> stamp \<Rightarrow> remote \<Rightarrow> (error + string) \<times> remote \<times> call list" where
  "ensureFolder driveId baseFolderPath st w =
     (case ensureSegments driveId [] (split (CHR ''/'') (combinedPath baseFolderPath st)) w of
        (Inl e, w', cs) \<Rightarrow> (Inl e, w', cs)
      | (Inr _, w', cs) \<Rightarrow> (Inr (yearOf st @ ''/'' @ monthOf st), w', cs))"

section \<open>File names: buildTargetFileName\<close>

record File =
  f_name :: "string option"
  f_size :: nat

text \<open>\<open>s.lastIndexOf(c)\<close>: the last position of \<open>c\<close>, or -1.\<close>

definition lastIndexOf :: "char \<Rightarrow> string \<Rightarrow> int" where
  "lastIndexOf c s =
     (case find (\<lambda>i. s ! i = c) (rev [0..<length s]) of None \<Rightarrow> - 1 | Some i \<Rightarrow> int i)"

text \<open>
  \<^verbatim>\<open>
  const sanitize = (segment) => toStr(segment).trim().replace(/[^a-zA-Z0-9]+/g, '-')
    .replace(/-+/g, '-').replace(/^-+|-+$/g, '').slice(0, 60);
  \<close>
\<close>

definition sanitize :: "string \<Rightarrow> string" where
  "sanitize segment =
     take 60 (stripBoth (\<lambda>c. c = CHR ''-'')
       (replaceRuns (\<lambda>c. c = CHR ''-'') (CHR ''-'')
         (replaceRuns (\<lambda>c. \<not> isAlnum c) (CHR ''-'') (trim segment))))"

definition timestamp :: "stamp \<Rightarrow> string" where
  "timestamp st = concat
     [String_int (getFullYear st),
      padStart 2 (CHR ''0'') (String_nat (getMonth st + 1)),
      padStart 2 (CHR ''0'') (String_nat (getDate st)),
      padStart 2 (CHR ''0'') (String_nat (getHours st)),
      padStart 2 (CHR ''0'') (String_nat (getMinutes st)),
      padStart 2 (CHR ''0'') (String_nat (getSeconds st))]"

text \<open>
  \<^verbatim>\<open>
  const originalName = toStr(file?.name, 'photo');
  const dot = originalName.lastIndexOf('.');
  const base = dot > -1 ? originalName.slice(0, dot) : originalName;
  const ext = dot > -1 ? originalName.slice(dot + 1) : '';
  ...
  const parts = [villageValue, base].map((p) => sanitize(p)).filter(Boolean);
  const safeBase = parts.length ? parts.join('_') : 'upload';
  const safeExt = ext ? ('.' + ext.toLowerCase()) : '';
  return timestamp + '_' + safeBase + safeExt;
  \<close>
\<close>

definition baseOf :: "File \<Rightarrow> string" where
  "baseOf fl =
     (let originalName = toStr (f_name fl) ''photo''; dot = lastIndexOf (CHR ''.'') originalName
      in if dot > - 1 then take (nat dot) originalName else originalName)"

definition extOf :: "File \<Rightarrow> string" where
  "extOf fl =
     (let originalName = toStr (f_name fl) ''photo''; dot = lastIndexOf (CHR ''.'') originalName
      in if dot > - 1 then drop (nat (dot + 1)) originalName else [])"

definition safeBaseOf :: "File \<Rightarrow> string \<Rightarrow> string" where
  "safeBaseOf fl villageValue =
     (let parts = filter (\<lambda>p. p \<noteq> []) (map sanitize [villageValue, baseOf fl])
      in if parts \<noteq> [] then joinWith ''_'' parts else ''upload'')"

definition safeExtOf :: "File \<Rightarrow> string" where
  "safeExtOf fl = (let ext = extOf fl in if ext \<noteq> [] then ''.'' @ toLowerCase ext else [])"

definition buildTargetFileName :: "File \<Rightarrow> string \<Rightarrow> stamp \<Rightarrow> string" where
  "buildTargetFileName fl villageValue st =
     timestamp st @ ''_'' @ safeBaseOf fl villageValue @ safeExtOf fl"

section \<open>Uploading one file: uploadOne\<close>

text \<open>
  The replies of the remote side to the requests of one upload. \<open>fetch\<close> either throws or
  returns a response with a status, a status text and a body (\<open>None\<close> when reading the body
  fails, where the source falls back to the empty text). \<open>Response.ok\<close> is defined by the
  Fetch standard as the status lying in the range 200 to 299.
\<close>

record driveItem =
  webUrl :: "string option"

record session =
  uploadUrl :: string

datatype fetchReply = FetchThrows string | Response nat string "string option"

definition ok :: "nat \<Rightarrow> bool" where
  "ok status = (200 \<le> status \<and> status \<le> 299)"

record uploadServer =
  putContentReply :: "error + driveItem"
  createUploadSessionReply :: "error + session"
  fetchPut :: "call \<Rightarrow> fetchReply"
  finalItemReply :: "error + driveItem"

definition chunkSize :: nat where
  "chunkSize = 5 * 1024 * 1024"

text \<open>
  \<^verbatim>\<open>
  let start = 0;
  while (start < file.size) {
    const end = Math.min(start + chunkSize, file.size);
    const chunk = file.slice(start, end);
    let res;
    try {
      res = await fetch(session.uploadUrl, { method: "PUT", headers: {
        "Content-Length": `${chunk.size}`,
        "Content-Range": `bytes ${start}-${end - 1}/${file.size}` }, body: chunk });
    } catch (e) { throw rewrapNetworkError(e, "UploadSession PUT chunk"); }
    if (!res.ok && ![200,201,202].includes(res.status)) {
      const text = await res.text().catch(() => "");
      throw new Error(`Upload chunk failed: HTTP ${res.status} ${res.statusText} ${text}`);
    }
    start = end;
  }
  \<close>
  The loop from a cursor \<open>start\<close>: the outcome and the chunk requests issued, in order. A
  thrown error keeps the message of the original one (the hints that
  \<open>rewrapNetworkError\<close> adds to a message are not modelled).
\<close>

function uploadChunks ::
  "(call \<Rightarrow> fetchReply) \<Rightarrow> string \<Rightarrow> nat \<Rightarrow> nat \<Rightarrow> (error + unit) \<times> call list" where
  "uploadChunks fetch url fsize start =
     (if start < fsize then
        let end' = min (start + chunkSize) fsize;
            req = PUT_chunk url (String_nat (end' - start))
                    (''bytes '' @ String_nat start @ ''-'' @ String_nat (end' - 1) @ ''/''
                       @ String_nat fsize)
                    start end'
        in
          (case fetch req of
             FetchThrows msg \<Rightarrow> (Inl (FetchFailed msg), [req])
           | Response status statusText body \<Rightarrow>
               if \<not> ok status \<and> status \<notin> {200, 201, 202} then
                 (Inl (UploadChunkFailed status statusText
                         (case body of None \<Rightarrow> [] | Some t \<Rightarrow> t)), [req])
               else
                 (case uploadChunks fetch url fsize end' of (res, reqs) \<Rightarrow> (res, req # reqs)))
      else (Inr (), []))"
  by pat_completeness auto
termination
  by (relation "measure (\<lambda>(fetch, url, fsize, start). fsize - start)")
     (auto simp: chunkSize_def)

declare uploadChunks.simps [simp del]

text \<open>
  \<^verbatim>\<open>
  const stamp = new Date();
  const pathSub = await ensureFolder(driveId, baseFolderPath, stamp);
  const fileName = buildTargetFileName(file, villageValue, stamp);
  const target = `${trimSlashes(toStr(baseFolderPath))}/${pathSub}/${fileName}`.replace(/^\/+/, "");
  if (file.size <= 3_999_999) {
    return await sgraph.putContent(`/drives/${driveId}/root:/${encodeURI(target)}:/content`, file);
  } else {
    const session = await sgraph.createUploadSession(`.../root:/${encodeURI(target)}:/createUploadSession`, ...);
    ... the chunk loop ...
    const finalItem = await sgraph.get(`/drives/${driveId}/root:/${encodeURI(target)}`);
    return finalItem;
  }
  \<close>
  The clock reading \<open>new Date()\<close> is an argument.
\<close>

definition targetOf :: "string option \<Rightarrow> string \<Rightarrow> string \<Rightarrow> string" where
  "targetOf baseFolderPath pathSub fileName =
     dropWhile (\<lambda>c. c = CHR ''/'')
       (trimSlashes (toStr baseFolderPath []) @ ''/'' @ pathSub @ ''/'' @ fileName)"

definition uploadOne ::
  "string \<Rightarrow> string option \<Rightarrow> File \<Rightarrow> string \<Rightarrow> stamp \<Rightarrow> uploadServer \<Rightarrow> remote
     \<Rightarrow> (error + driveItem) \<times> remote \<times> call list" where
  "uploadOne driveId baseFolderPath fl villageValue st srv w =
     (case ensureFolder driveId baseFolderPath st w of
        (Inl e, w1, cs) \<Rightarrow> (Inl e, w1, cs)
      | (Inr pathSub, w1, cs) \<Rightarrow>
          let fileName = buildTargetFileName fl villageValue st;
              target = targetOf baseFolderPath pathSub fileName
          in
            if f_size fl \<le> 3999999 then
              (putContentReply srv, w1, cs @ [PUT_content (ItemContent driveId target)])
            else
              (case createUploadSessionReply srv of
                 Inl e \<Rightarrow> (Inl e, w1, cs @ [POST_session (ItemUploadSession driveId target)])
               | Inr sess \<Rightarrow>
                   (case uploadChunks (fetchPut srv) (uploadUrl sess) (f_size fl) 0 of
                      (Inl e, puts) \<Rightarrow>
                        (Inl e, w1, cs @ POST_session (ItemUploadSession driveId target) # puts)
                    | (Inr _, puts) \<Rightarrow>
                        (finalItemReply srv, w1,
                         cs @ POST_session (ItemUploadSession driveId target) # puts
                            @ [GET (DriveItem driveId target)]))))"

section \<open>Submission: the payload of submit\<close>















section \<open>Vocabulary of the properties\<close>


text \<open>The key to which \<open>register\<close> normalises a name, the keys one column passes to
  \<open>register\<close>, in the order of the six calls, and whether a column produces a key.\<close>

definition normalizeKey :: "string \<Rightarrow> string" where
  "normalizeKey key = toLowerCase (trim key)"

definition internalNameOf :: "column \<Rightarrow> string" where
  "internalNameOf c = toStr (c_name c) []"

definition aliasKeys :: "column \<Rightarrow> string list" where
  "aliasKeys c =
     (let n = toStr (c_name c) []; d = toStr (c_displayName c) []
      in filter (\<lambda>k. k \<noteq> [])
           (map normalizeKey
              ([n, underscoresToSpaces n, stripNonAlnum n]
               @ (if d \<noteq> [] then [d, removeWhiteSpace d, stripNonAlnum d] else []))))"

definition producesKey :: "column \<Rightarrow> string \<Rightarrow> bool" where
  "producesKey c k = (internalNameOf c \<noteq> [] \<and> k \<in> set (aliasKeys c))"

text \<open>The read of the alias index that \<open>chooseField\<close> performs for a candidate,
  \<^verbatim>\<open>byLower[toStr(cand).toLowerCase()]\<close>, and the form of a name that ignores letter case,
  white space and punctuation.\<close>

definition lookupAlias :: "(string \<rightharpoonup> string) \<Rightarrow> string \<Rightarrow> slot" where
  "lookupAlias idx cand = readKey idx (toLowerCase cand)"

definition canon :: "string \<Rightarrow> string" where
  "canon s = toLowerCase (stripNonAlnum s)"

text \<open>No key of an alias index is bound to the empty name.\<close>

definition nonEmptyValues :: "(string \<rightharpoonup> string) \<Rightarrow> bool" where
  "nonEmptyValues m = (\<forall>k. m k \<noteq> Some [])"

text \<open>A column of kind text with the given internal name, display name and flags, for the
  concrete listings below.\<close>

definition textColumn :: "string \<Rightarrow> string \<Rightarrow> bool \<Rightarrow> bool \<Rightarrow> column" where
  "textColumn n d ro hid =
     \<lparr>c_name = Some n, c_displayName = Some d, c_readOnly = ro, c_hidden = hid,
      c_hyperlinkOrPicture = False, c_text = True, c_number = False, c_dateTime = False,
      c_boolean = False, c_choice = None, c_multiChoice = None, c_lookup = False\<rparr>"

text \<open>The chunk request the loop issues at a cursor, the request of the \<open>i\<close>-th chunk of a
  file of \<open>fsize\<close> bytes written out, and the number of chunks, the ceiling of
  \<open>fsize / chunkSize\<close>.\<close>

definition chunkRequest :: "string \<Rightarrow> nat \<Rightarrow> nat \<Rightarrow> call" where
  "chunkRequest url fsize start =
     PUT_chunk url (String_nat (min (start + chunkSize) fsize - start))
       (''bytes '' @ String_nat start @ ''-'' @ String_nat (min (start + chunkSize) fsize - 1)
          @ ''/'' @ String_nat fsize)
       start (min (start + chunkSize) fsize)"

definition nthChunk :: "string \<Rightarrow> nat \<Rightarrow> nat \<Rightarrow> call" where
  "nthChunk url fsize i =
     PUT_chunk url (String_nat (min ((i + 1) * chunkSize) fsize - i * chunkSize))
       (''bytes '' @ String_nat (i * chunkSize) @ ''-''
          @ String_nat (min ((i + 1) * chunkSize) fsize - 1) @ ''/'' @ String_nat fsize)
       (i * chunkSize) (min ((i + 1) * chunkSize) fsize)"

definition chunkCount :: "nat \<Rightarrow> nat" where
  "chunkCount fsize = (fsize + chunkSize - 1) div chunkSize"

text \<open>A reply that lets the loop go on, and the elements of a list up to and including the
  first one that fails a test.\<close>

definition successStatus :: "nat \<Rightarrow> bool" where
  "successStatus status = (200 \<le> status \<and> status \<le> 299)"

definition accepted :: "fetchReply \<Rightarrow> bool" where
  "accepted r = (case r of FetchThrows _ \<Rightarrow> False | Response status _ _ \<Rightarrow> successStatus status)"

fun upToFirst :: "('a \<Rightarrow> bool) \<Rightarrow> 'a list \<Rightarrow> 'a list" where
  "upToFirst P [] = []"
| "upToFirst P (x # xs) = (if P x then x # upToFirst P xs else [x])"

text \<open>The chunk requests among the requests of an upload.\<close>

definition isChunk :: "call \<Rightarrow> bool" where
  "isChunk c = (case c of PUT_chunk _ _ _ _ _ \<Rightarrow> True | _ \<Rightarrow> False)"

definition chunkCalls :: "call list \<Rightarrow> call list" where
  "chunkCalls cs = filter isChunk cs"

text \<open>Concrete inputs for the examples: a clock reading (7 May 2024, 09:03:59), a store in
  which the folder \<open>Photos\<close> of the drive \<open>D\<close> exists, a store that in addition rejects the
  folder of the year, two files on either side of the small-file threshold, a file of two chunks, and a remote side
  that accepts every request.\<close>

definition exampleStamp :: stamp where
  "exampleStamp = \<lparr>getFullYear = 2024, getMonth = 4, getDate = 7, getHours = 9,
                    getMinutes = 3, getSeconds = 59\<rparr>"

definition exampleStore :: remote where
  "exampleStore = \<lparr>folders = {(''D'', ''Photos'')}, refuses = {}\<rparr>"

definition exampleServer :: uploadServer where
  "exampleServer =
     \<lparr>putContentReply = Inr \<lparr>webUrl = Some ''https://sp/small.jpg''\<rparr>,
      createUploadSessionReply = Inr \<lparr>uploadUrl = ''https://sp/session''\<rparr>,
      fetchPut = (\<lambda>c. Response 202 ''Accepted'' None),
      finalItemReply = Inr \<lparr>webUrl = Some ''https://sp/large.jpg''\<rparr>\<rparr>"

definition smallFile :: File where
  "smallFile = \<lparr>f_name = Some ''Gate.JPG'', f_size = 3999999\<rparr>"

definition largeFile :: File where
  "largeFile = \<lparr>f_name = Some ''Gate.JPG'', f_size = 4000000\<rparr>"

definition bigFile :: File where
  "bigFile = \<lparr>f_name = Some ''Gate.JPG'', f_size = 6000000\<rparr>"




text \<open>Decimal digits and upper-case ASCII letters, the segment text before \<open>slice(0, 60)\<close>
  cuts it, and a clock reading in the year 999.\<close>

definition isDigit :: "char \<Rightarrow> bool" where
  "isDigit c = (48 \<le> (of_char c :: nat) \<and> (of_char c :: nat) \<le> 57)"

definition isUpperAscii :: "char \<Rightarrow> bool" where
  "isUpperAscii c = (65 \<le> (of_char c :: nat) \<and> (of_char c :: nat) \<le> 90)"

definition uncut :: "string \<Rightarrow> string" where
  "uncut segment =
     stripBoth (\<lambda>c. c = CHR ''-'')
       (replaceRuns (\<lambda>c. c = CHR ''-'') (CHR ''-'')
         (replaceRuns (\<lambda>c. \<not> isAlnum c) (CHR ''-'') (trim segment)))"

definition earlyStamp :: stamp where
  "earlyStamp = \<lparr>getFullYear = 999, getMonth = 4, getDate = 7, getHours = 9,
                  getMinutes = 3, getSeconds = 59\<rparr>"







section \<open>Verified properties\<close>

subsection \<open>Field selection\<close>





text \<open>Unfolding rules that let the simplifier compute the string helpers on literals.\<close>

lemmas char_evals = char_of_def bit_Suc_0_iff lowerChar_def toLowerCase_def isWhiteSpace_def
  isAlnum_def trim_def stripBoth_def


subsection \<open>The alias index\<close>

lemma register_apply:
  "register m key internal k =
     (if k = normalizeKey key \<and> k \<noteq> [] \<and> \<not> truthy (readKey m k) then Some internal else m k)"
  by (auto simp: register_def normalizeKey_def Let_def)

lemma truthy_readKey_register:
  "n \<noteq> [] \<Longrightarrow>
     truthy (readKey (register m key n) k) =
       (truthy (readKey m k) \<or> (k = normalizeKey key \<and> k \<noteq> []))"
  by (auto simp: register_apply truthy_def readKey_def split: option.splits)

lemma foldl_register:
  "n \<noteq> [] \<Longrightarrow>
     foldl (\<lambda>m key. register m key n) m keys k =
       (if \<not> truthy (readKey m k) \<and> k \<noteq> [] \<and> k \<in> normalizeKey ` set keys then Some n else m k)"
proof (induction keys arbitrary: m)
  case Nil
  then show ?case by simp
next
  case (Cons key keys)
  show ?case
    using Cons.prems
    by (simp add: Cons.IH truthy_readKey_register) (auto simp: register_apply)
qed

lemma registerColumn_foldl:
  "registerColumn m c =
     foldl (\<lambda>m key. register m key (internalNameOf c)) m
       ([internalNameOf c, underscoresToSpaces (internalNameOf c), stripNonAlnum (internalNameOf c)]
        @ (if toStr (c_displayName c) [] \<noteq> []
           then [toStr (c_displayName c) [], removeWhiteSpace (toStr (c_displayName c) []),
                 stripNonAlnum (toStr (c_displayName c) [])]
           else []))"
  by (simp add: registerColumn_def internalNameOf_def Let_def)

lemma set_aliasKeys:
  "k \<in> set (aliasKeys c) \<longleftrightarrow>
     k \<noteq> [] \<and> k \<in> normalizeKey ` set
       ([internalNameOf c, underscoresToSpaces (internalNameOf c), stripNonAlnum (internalNameOf c)]
        @ (if toStr (c_displayName c) [] \<noteq> []
           then [toStr (c_displayName c) [], removeWhiteSpace (toStr (c_displayName c) []),
                 stripNonAlnum (toStr (c_displayName c) [])]
           else []))"
  unfolding aliasKeys_def Let_def internalNameOf_def by auto

lemma byLower_indexColumn:
  "byLower (indexColumn st c) k =
     (if \<not> truthy (readKey (byLower st) k) \<and> producesKey c k then Some (internalNameOf c)
      else byLower st k)"
proof (cases "internalNameOf c = []")
  case True
  then show ?thesis by (simp add: indexColumn_def internalNameOf_def producesKey_def)
next
  case False
  then have "byLower (indexColumn st c) = registerColumn (byLower st) c"
    by (simp add: indexColumn_def internalNameOf_def Let_def)
  then show ?thesis
    unfolding registerColumn_foldl foldl_register [OF False] producesKey_def set_aliasKeys
    using False by simp
qed

lemma nonEmptyValues_indexColumn:
  "nonEmptyValues (byLower st) \<Longrightarrow> nonEmptyValues (byLower (indexColumn st c))"
  by (auto simp: nonEmptyValues_def byLower_indexColumn producesKey_def)

lemma byLower_foldl:
  "nonEmptyValues (byLower st) \<Longrightarrow>
     byLower (foldl indexColumn st cols) k =
       (case byLower st k of
          Some v \<Rightarrow> Some v
        | None \<Rightarrow>
            if inheritedKey k then None
            else map_option internalNameOf (find (\<lambda>c. producesKey c k) cols))"
proof (induction cols arbitrary: st)
  case Nil
  then show ?case by (simp split: option.splits)
next
  case (Cons c cols)
  have ne: "nonEmptyValues (byLower (indexColumn st c))"
    using Cons.prems by (rule nonEmptyValues_indexColumn)
  have tr: "truthy (readKey (byLower st) k) = (byLower st k \<noteq> None \<or> inheritedKey k)"
    using Cons.prems
    by (auto simp: nonEmptyValues_def truthy_def readKey_def split: option.splits)
  show ?case
    by (simp add: Cons.IH [OF ne] byLower_indexColumn tr split: option.splits)
qed

text \<open>The alias index that \<open>getColumns\<close> builds: a key that names an inherited member is
  never an own key; any other key is bound to the internal name of the first column of the
  listing that produces it.\<close>

lemma byLower_getColumns:
  "byLower (getColumns cols) k =
     (if inheritedKey k then None
      else map_option internalNameOf (find (\<lambda>c. producesKey c k) cols))"
  by (simp add: getColumns_def byLower_foldl nonEmptyValues_def noColumns_def)

lemma find_first:
  "P c \<Longrightarrow> \<forall>x \<in> set pre. \<not> P x \<Longrightarrow> find P (pre @ c # post) = Some c"
  by (induction pre) auto

text \<open>For a key that names no inherited member, the first column of the listing that
  produces the key keeps it, whatever columns follow, and a later registration under that
  key leaves the index as it is.\<close>

lemma first_producer_wins:
  assumes "cols = pre @ c1 # post" and "producesKey c1 k" and "\<not> inheritedKey k"
    and "\<forall>c \<in> set pre. \<not> producesKey c k"
  shows "byLower (getColumns cols) k = Some (internalNameOf c1)
     \<and> (\<forall>key internal. normalizeKey key = k \<longrightarrow>
           register (byLower (getColumns cols)) key internal = byLower (getColumns cols))"
proof -
  have f: "find (\<lambda>c. producesKey c k) cols = Some c1"
    unfolding assms(1) using assms(2,4) by (rule find_first)
  then have b: "byLower (getColumns cols) k = Some (internalNameOf c1)"
    using assms(3) by (simp add: byLower_getColumns)
  have "internalNameOf c1 \<noteq> []" using assms(2) by (simp add: producesKey_def)
  with b have "truthy (readKey (byLower (getColumns cols)) k)"
    by (simp add: truthy_def readKey_def)
  then have "\<forall>key internal. normalizeKey key = k \<longrightarrow>
      register (byLower (getColumns cols)) key internal = byLower (getColumns cols)"
    by (auto simp: register_def normalizeKey_def Let_def)
  with b show ?thesis by blast
qed

text \<open>Unfolding rules for computing on the concrete column listings.\<close>

lemmas column_evals = producesKey_def aliasKeys_def internalNameOf_def normalizeKey_def
  textColumn_def toStr_def underscoresToSpaces_def stripNonAlnum_def removeWhiteSpace_def
  inheritedKey_def

lemma first_producer_wins_example:
  "byLower (getColumns [textColumn ''Title'' ''Title'' False False,
          textColumn ''LinkTitle'' ''Title'' True False]) ''title'' = Some ''Title''"
  by (simp add: byLower_getColumns column_evals char_evals)

text \<open>
  Claim C4. Two columns displayed as \<open>Constructor\<close> both produce the normalised key
  \<open>constructor\<close>, and the claim gives that key to the column listed first. The guard of
  \<open>register\<close>, \<^verbatim>\<open>if (byLower[normalized]) return;\<close>, reads the member \<open>constructor\<close> that the
  empty index inherits, finds it truthy and returns: neither column is filed under the key,
  the index has no own value for it, and a read of it yields the inherited member instead of
  the internal name of the first column. The other key of the second column is filed as
  usual.
\<close>

theorem inherited_key_not_registered:
  "producesKey (textColumn ''Constructor'' ''Constructor'' False False) ''constructor''
   \<and> producesKey (textColumn ''Constructor0'' ''Constructor'' False False) ''constructor''
   \<and> byLower (getColumns [textColumn ''Constructor'' ''Constructor'' False False,
          textColumn ''Constructor0'' ''Constructor'' False False]) ''constructor'' = None
   \<and> readKey (byLower (getColumns [textColumn ''Constructor'' ''Constructor'' False False,
          textColumn ''Constructor0'' ''Constructor'' False False])) ''constructor'' = Inherited
   \<and> byLower (getColumns [textColumn ''Constructor'' ''Constructor'' False False,
          textColumn ''Constructor0'' ''Constructor'' False False]) ''constructor0''
       = Some ''Constructor0''"
  by (simp add: byLower_getColumns readKey_def column_evals char_evals)

text \<open>
  Claim C3 says that two candidate names which differ only in letter case, white space or
  punctuation resolve to the same internal name, and that the display name is registered
  under the same three transforms as the internal name. Neither holds. A lookup only
  lower-cases the candidate, so \<open>Photo URL\<close> finds the column and \<open>Photo-URL\<close> finds nothing;
  and the second transform of a display name removes its white space instead of turning
  underscores into spaces, so a column displayed as \<open>Photo_Url\<close> is not found as
  \<open>photo url\<close>.
\<close>

theorem alias_variants_counterexample:
  "canon ''Photo URL'' = canon ''Photo-URL''
   \<and> lookupAlias (byLower (getColumns [textColumn ''PhotoUrl'' ''Photo URL'' False False]))
         ''Photo URL'' = Own ''PhotoUrl''
   \<and> lookupAlias (byLower (getColumns [textColumn ''PhotoUrl'' ''Photo URL'' False False]))
         ''Photo-URL'' = Undefined
   \<and> canon ''Photo_Url'' = canon ''photo url''
   \<and> lookupAlias (byLower (getColumns [textColumn ''Col1'' ''Photo_Url'' False False]))
         ''Photo_Url'' = Own ''Col1''
   \<and> lookupAlias (byLower (getColumns [textColumn ''Col1'' ''Photo_Url'' False False]))
         ''photo url'' = Undefined"
  by (simp add: byLower_getColumns lookupAlias_def readKey_def canon_def column_evals char_evals)

text \<open>
  Claim C3, amended. Two candidate names that differ only in letter case resolve alike.
  Beyond letter case, and for keys that name no member an object inherits, a candidate
  resolves to the internal name of a column when its lower-cased form is one of the keys
  that column passes to \<open>register\<close> (trimmed and lower-cased: the internal name verbatim, with
  underscores replaced by spaces, and with all non-alphanumerics stripped; the display name
  verbatim, with white space removed, and with all non-alphanumerics stripped) and no column
  listed earlier produces that key; two such candidates of one column resolve to the same
  internal name.
\<close>

theorem alias_variants_resolve:
  "(toLowerCase a = toLowerCase b \<longrightarrow>
      lookupAlias (byLower (getColumns cols)) a = lookupAlias (byLower (getColumns cols)) b)
   \<and> (cols = pre @ c # post \<and> internalNameOf c \<noteq> []
        \<and> toLowerCase a \<in> set (aliasKeys c) \<and> toLowerCase b \<in> set (aliasKeys c)
        \<and> \<not> inheritedKey (toLowerCase a) \<and> \<not> inheritedKey (toLowerCase b)
        \<and> (\<forall>x \<in> set pre. \<not> producesKey x (toLowerCase a) \<and> \<not> producesKey x (toLowerCase b))
      \<longrightarrow> lookupAlias (byLower (getColumns cols)) a = Own (internalNameOf c)
        \<and> lookupAlias (byLower (getColumns cols)) b = Own (internalNameOf c))"
proof -
  have r: "readKey (byLower (getColumns (pre @ c # post))) (toLowerCase x) = Own (internalNameOf c)"
    if "internalNameOf c \<noteq> []" "toLowerCase x \<in> set (aliasKeys c)"
       "\<not> inheritedKey (toLowerCase x)"
       "\<forall>y \<in> set pre. \<not> producesKey y (toLowerCase x)" for x
  proof -
    have "producesKey c (toLowerCase x)" using that(1,2) by (simp add: producesKey_def)
    then have "find (\<lambda>c. producesKey c (toLowerCase x)) (pre @ c # post) = Some c"
      using that(4) by (rule find_first)
    then show ?thesis using that(3) by (simp add: readKey_def byLower_getColumns)
  qed
  show ?thesis
    by (auto simp: lookupAlias_def r)
qed

theorem alias_variants_resolve_witness:
  "lookupAlias (byLower (getColumns [textColumn ''Title'' ''Title'' False False,
        textColumn ''PhotoUrl'' ''Photo URL'' False False])) ''PHOTO URL'' = Own ''PhotoUrl''
   \<and> lookupAlias (byLower (getColumns [textColumn ''Title'' ''Title'' False False,
        textColumn ''PhotoUrl'' ''Photo URL'' False False])) ''photourl'' = Own ''PhotoUrl''
   \<and> lookupAlias (byLower (getColumns [textColumn ''Title'' ''Title'' False False,
        textColumn ''PhotoUrl'' ''Photo URL'' False False])) ''Photo Url'' = Own ''PhotoUrl''"
proof -
  have h: "[textColumn ''Title'' ''Title'' False False, textColumn ''PhotoUrl'' ''Photo URL'' False False]
        = [textColumn ''Title'' ''Title'' False False] @ textColumn ''PhotoUrl'' ''Photo URL'' False False # []
      \<and> internalNameOf (textColumn ''PhotoUrl'' ''Photo URL'' False False) \<noteq> []
      \<and> toLowerCase ''PHOTO URL'' \<in> set (aliasKeys (textColumn ''PhotoUrl'' ''Photo URL'' False False))
      \<and> toLowerCase ''photourl'' \<in> set (aliasKeys (textColumn ''PhotoUrl'' ''Photo URL'' False False))
      \<and> \<not> inheritedKey (toLowerCase ''PHOTO URL'') \<and> \<not> inheritedKey (toLowerCase ''photourl'')
      \<and> (\<forall>x \<in> set [textColumn ''Title'' ''Title'' False False].
            \<not> producesKey x (toLowerCase ''PHOTO URL'') \<and> \<not> producesKey x (toLowerCase ''photourl''))"
    by (simp add: column_evals char_evals)
  have e: "toLowerCase ''Photo Url'' = toLowerCase ''PHOTO URL''"
    by (simp add: char_evals)
  have n: "internalNameOf (textColumn ''PhotoUrl'' ''Photo URL'' False False) = ''PhotoUrl''"
    by (simp add: column_evals)
  from alias_variants_resolve [of "''PHOTO URL''" "''photourl''" _ "[textColumn ''Title'' ''Title'' False False]"
      "textColumn ''PhotoUrl'' ''Photo URL'' False False" "[]"] h
  have 1: "lookupAlias (byLower (getColumns [textColumn ''Title'' ''Title'' False False,
        textColumn ''PhotoUrl'' ''Photo URL'' False False])) ''PHOTO URL'' = Own ''PhotoUrl''
   \<and> lookupAlias (byLower (getColumns [textColumn ''Title'' ''Title'' False False,
        textColumn ''PhotoUrl'' ''Photo URL'' False False])) ''photourl'' = Own ''PhotoUrl''"
    unfolding n by blast
  from alias_variants_resolve [of "''Photo Url''" "''PHOTO URL''"
      "[textColumn ''Title'' ''Title'' False False, textColumn ''PhotoUrl'' ''Photo URL'' False False]"] e
  have 2: "lookupAlias (byLower (getColumns [textColumn ''Title'' ''Title'' False False,
        textColumn ''PhotoUrl'' ''Photo URL'' False False])) ''Photo Url''
      = lookupAlias (byLower (getColumns [textColumn ''Title'' ''Title'' False False,
        textColumn ''PhotoUrl'' ''Photo URL'' False False])) ''PHOTO URL''"
    by blast
  from 1 2 show ?thesis by simp
qed

subsection \<open>The upload engine\<close>

lemma uploadChunks_done: "\<not> start < fsize \<Longrightarrow> uploadChunks fetch url fsize start = (Inr (), [])"
  by (simp add: uploadChunks.simps)

lemma uploadChunks_step:
  "start < fsize \<Longrightarrow>
     uploadChunks fetch url fsize start =
       (case fetch (chunkRequest url fsize start) of
          FetchThrows msg \<Rightarrow> (Inl (FetchFailed msg), [chunkRequest url fsize start])
        | Response status statusText body \<Rightarrow>
            if successStatus status then
              (case uploadChunks fetch url fsize (min (start + chunkSize) fsize) of
                 (res, reqs) \<Rightarrow> (res, chunkRequest url fsize start # reqs))
            else (Inl (UploadChunkFailed status statusText (case body of None \<Rightarrow> [] | Some t \<Rightarrow> t)),
                  [chunkRequest url fsize start]))"
  by (subst uploadChunks.simps) (auto simp: chunkRequest_def Let_def ok_def successStatus_def split: fetchReply.splits)

lemma chunkRequest_nth: "chunkRequest url fsize (i * chunkSize) = nthChunk url fsize i"
  by (simp add: chunkRequest_def nthChunk_def add.commute)

lemma chunkCount_gt: "k * chunkSize < fsize \<Longrightarrow> k < chunkCount fsize"
  by (simp add: chunkCount_def chunkSize_def)

lemma chunkCount_le: "fsize \<le> k * chunkSize \<Longrightarrow> chunkCount fsize \<le> k"
  by (simp add: chunkCount_def chunkSize_def)

lemma uploadChunks_requests:
  "start = k * chunkSize \<Longrightarrow>
     snd (uploadChunks fetch url fsize start) =
       map (nthChunk url fsize)
         (upToFirst (\<lambda>i. accepted (fetch (nthChunk url fsize i))) [k..<chunkCount fsize])"
proof (induction fetch url fsize start arbitrary: k rule: uploadChunks.induct)
  case (1 fetch url fsize start)
  show ?case
  proof (cases "start < fsize")
    case False
    then have "chunkCount fsize \<le> k" using 1(2) by (simp add: chunkCount_le)
    with False show ?thesis by (simp add: uploadChunks_done)
  next
    case True
    then have lt: "k < chunkCount fsize" using 1(2) by (simp add: chunkCount_gt)
    then have up: "[k..<chunkCount fsize] = k # [Suc k..<chunkCount fsize]"
      by (simp add: upt_conv_Cons)
    have rq: "chunkRequest url fsize start = nthChunk url fsize k"
      using 1(2) by (simp add: chunkRequest_nth)
    show ?thesis
    proof (cases "fetch (nthChunk url fsize k)")
      case (FetchThrows msg)
      then show ?thesis
        by (simp add: uploadChunks_step [OF True] rq up accepted_def)
    next
      case (Response status statusText body)
      show ?thesis
      proof (cases "successStatus status")
        case False
        with Response show ?thesis
          by (simp add: uploadChunks_step [OF True] rq up accepted_def)
      next
        case ok: True
        have nxt: "snd (uploadChunks fetch url fsize (min (start + chunkSize) fsize)) =
           map (nthChunk url fsize)
             (upToFirst (\<lambda>i. accepted (fetch (nthChunk url fsize i))) [Suc k..<chunkCount fsize])"
        proof (cases "start + chunkSize \<le> fsize")
          case le: True
          then have m: "min (start + chunkSize) fsize = Suc k * chunkSize"
            using 1(2) by simp
          have nok: "\<not> (\<not> ok status \<and> status \<notin> {200, 201, 202})"
            using ok by (simp add: ok_def successStatus_def)
          have "snd (uploadChunks fetch url fsize (min (start + chunkSize) fsize)) =
             map (nthChunk url fsize)
               (upToFirst (\<lambda>i. accepted (fetch (nthChunk url fsize i))) [Suc k..<chunkCount fsize])"
            using Response rq
            by (intro 1(1) [OF True refl refl _ nok m]) (simp add: chunkRequest_def Let_def)
          then show ?thesis .
        next
          case gt: False
          then have m: "min (start + chunkSize) fsize = fsize" by simp
          have "fsize \<le> Suc k * chunkSize" using gt 1(2) by simp
          then have "chunkCount fsize \<le> Suc k" by (rule chunkCount_le)
          then show ?thesis by (simp add: m uploadChunks_done)
        qed
        with Response ok show ?thesis
          by (cases "uploadChunks fetch url fsize (min (start + chunkSize) fsize)")
             (simp add: uploadChunks_step [OF True] rq up accepted_def)
      qed
    qed
  qed
qed


lemma upToFirst_all: "\<forall>x \<in> set xs. P x \<Longrightarrow> upToFirst P xs = xs"
  by (induction xs) auto

lemma upToFirst_prefix: "\<exists>n \<le> length xs. upToFirst P xs = take n xs"
proof (induction xs)
  case Nil
  then show ?case by simp
next
  case (Cons x xs)
  then obtain n where n: "n \<le> length xs" "upToFirst P xs = take n xs" by blast
  show ?case
  proof (cases "P x")
    case True
    with n have "Suc n \<le> length (x # xs) \<and> upToFirst P (x # xs) = take (Suc n) (x # xs)" by simp
    then show ?thesis by blast
  next
    case False
    then have "Suc 0 \<le> length (x # xs) \<and> upToFirst P (x # xs) = take (Suc 0) (x # xs)" by simp
    then show ?thesis by blast
  qed
qed

lemma upToFirst_accepted_before:
  "i < length (upToFirst P xs) \<Longrightarrow> j < i \<Longrightarrow> P (xs ! j)"
proof (induction xs arbitrary: i j)
  case Nil
  then show ?case by simp
next
  case (Cons x xs)
  show ?case
  proof (cases "P x")
    case False
    with Cons.prems show ?thesis by simp
  next
    case True
    show ?thesis
    proof (cases j)
      case 0
      with True show ?thesis by simp
    next
      case (Suc j')
      with Cons.prems obtain i' where i': "i = Suc i'" by (cases i) auto
      with Cons.prems True Suc have "i' < length (upToFirst P xs)" "j' < i'" by auto
      then have "P (xs ! j')" by (rule Cons.IH)
      with Suc show ?thesis by simp
    qed
  qed
qed

lemma chunk_ranges_partition:
  "concat (map (\<lambda>i. [i * chunkSize..<min ((i + 1) * chunkSize) fsize]) [0..<chunkCount fsize])
     = [0..<fsize]"
proof -
  have g: "k \<le> chunkCount fsize \<Longrightarrow>
      concat (map (\<lambda>i. [i * chunkSize..<min ((i + 1) * chunkSize) fsize]) [0..<k])
        = [0..<min (k * chunkSize) fsize]" for k
  proof (induction k)
    case 0
    then show ?case by simp
  next
    case (Suc k)
    then have lt: "k < chunkCount fsize" by simp
    then have "k * chunkSize < fsize"
      using chunkCount_le [of fsize k] by (cases "k * chunkSize < fsize") auto
    then have m: "min (k * chunkSize) fsize = k * chunkSize" by simp
    have le: "k * chunkSize \<le> min ((k + 1) * chunkSize) fsize"
      using \<open>k * chunkSize < fsize\<close> by simp
    have "[0..<k * chunkSize] @ [k * chunkSize..<min ((k + 1) * chunkSize) fsize]
        = [0..<min ((k + 1) * chunkSize) fsize]"
      using upt_add_eq_append [of 0 "k * chunkSize" "min ((k + 1) * chunkSize) fsize - k * chunkSize"] le
      by simp
    with Suc lt m show ?case by simp
  qed
  have "fsize \<le> chunkCount fsize * chunkSize"
    by (simp add: chunkCount_def chunkSize_def)
  then have "min (chunkCount fsize * chunkSize) fsize = fsize" by simp
  with g [of "chunkCount fsize"] show ?thesis by simp
qed


text \<open>Unfolding rules for computing paths, folders and file names on concrete inputs.\<close>

lemmas path_evals = ensureFolder_def combinedPath_def yearOf_def monthOf_def String_int_def
  String_nat.simps padStart_def trimSlashes_def childrenEndpoint_def sgraph_get_def
  sgraph_post_def childOf_def toStr_def Let_def

lemma exampleFolder:
  "ensureFolder ''D'' (Some ''/Photos/'') exampleStamp exampleStore =
     (Inr ''2024/05'',
      \<lparr>folders = {(''D'', ''Photos/2024/05''), (''D'', ''Photos/2024''), (''D'', ''Photos'')},
       refuses = {}\<rparr>,
      [GET (DriveItem ''D'' ''Photos''),
       GET (DriveItem ''D'' ''Photos/2024''),
       POST_folder (ItemChildren ''D'' ''Photos'') ''2024'',
       GET (DriveItem ''D'' ''Photos/2024/05''),
       POST_folder (ItemChildren ''D'' ''Photos/2024'') ''05''])"
  by (simp add: path_evals char_evals exampleStamp_def exampleStore_def)


lemma ensureSegments_noChunk:
  "ensureSegments d p raws w = (res, w', cs) \<Longrightarrow> chunkCalls cs = []"
proof (induction raws arbitrary: p w res w' cs)
  case Nil
  then show ?case by (auto simp: chunkCalls_def)
next
  case (Cons raw raws)
  show ?case
  proof (cases "trim raw = []")
    case True
    with Cons show ?thesis by simp
  next
    case False
    with Cons.prems Cons.IH show ?thesis
      by (auto simp: Let_def chunkCalls_def isChunk_def split: if_splits sum.splits prod.splits)
  qed
qed

lemma ensureFolder_noChunk:
  "ensureFolder d b st w = (res, w', cs) \<Longrightarrow> chunkCalls cs = []"
  by (auto simp: ensureFolder_def split: prod.splits sum.splits dest: ensureSegments_noChunk)

lemma uploadOne_small:
  "ensureFolder d b st w = (Inr pathSub, w1, cs) \<Longrightarrow> f_size fl \<le> 3999999 \<Longrightarrow>
     uploadOne d b fl v st srv w =
       (putContentReply srv, w1,
        cs @ [PUT_content (ItemContent d (targetOf b pathSub (buildTargetFileName fl v st)))])"
  by (simp add: uploadOne_def Let_def)

lemma uploadOne_large:
  "ensureFolder d b st w = (Inr pathSub, w1, cs) \<Longrightarrow> 3999999 < f_size fl \<Longrightarrow>
     uploadOne d b fl v st srv w =
       (let target = targetOf b pathSub (buildTargetFileName fl v st);
            open_session = POST_session (ItemUploadSession d target)
        in case createUploadSessionReply srv of
             Inl e \<Rightarrow> (Inl e, w1, cs @ [open_session])
           | Inr sess \<Rightarrow>
               (case uploadChunks (fetchPut srv) (uploadUrl sess) (f_size fl) 0 of
                  (Inl e, puts) \<Rightarrow> (Inl e, w1, cs @ open_session # puts)
                | (Inr u, puts) \<Rightarrow>
                    (finalItemReply srv, w1,
                     cs @ open_session # puts @ [GET (DriveItem d target)])))"
  by (simp add: uploadOne_def Let_def split: sum.splits prod.splits)

lemma chunkCalls_nthChunk:
  "chunkCalls (map (nthChunk url fsize) xs) = map (nthChunk url fsize) xs"
  by (induction xs) (simp_all add: chunkCalls_def isChunk_def nthChunk_def)

lemma chunkCalls_append: "chunkCalls (xs @ ys) = chunkCalls xs @ chunkCalls ys"
  by (simp add: chunkCalls_def)

lemma uploadOne_chunkCalls:
  assumes "3999999 < f_size fl" and "ensureFolder d b st w = (Inr pathSub, w1, cs)"
    and "createUploadSessionReply srv = Inr sess"
  shows "chunkCalls (snd (snd (uploadOne d b fl v st srv w))) =
     map (nthChunk (uploadUrl sess) (f_size fl))
       (upToFirst (\<lambda>i. accepted (fetchPut srv (nthChunk (uploadUrl sess) (f_size fl) i)))
          [0..<chunkCount (f_size fl)])"
proof -
  have c: "chunkCalls cs = []" using assms(2) by (rule ensureFolder_noChunk)
  have r: "snd (uploadChunks (fetchPut srv) (uploadUrl sess) (f_size fl) 0) =
     map (nthChunk (uploadUrl sess) (f_size fl))
       (upToFirst (\<lambda>i. accepted (fetchPut srv (nthChunk (uploadUrl sess) (f_size fl) i)))
          [0..<chunkCount (f_size fl)])"
    by (rule uploadChunks_requests) simp
  show ?thesis
  proof (cases "uploadChunks (fetchPut srv) (uploadUrl sess) (f_size fl) 0")
    case (Pair res puts)
    with r have p: "chunkCalls puts = puts"
      "puts = map (nthChunk (uploadUrl sess) (f_size fl))
       (upToFirst (\<lambda>i. accepted (fetchPut srv (nthChunk (uploadUrl sess) (f_size fl) i)))
          [0..<chunkCount (f_size fl)])"
      by (simp_all add: chunkCalls_nthChunk)
    have x: "chunkCalls (cs @ POST_session a # puts) = puts"
      "chunkCalls (cs @ POST_session a # puts @ [GET a']) = puts" for a a'
      using c p(1) by (simp_all add: chunkCalls_append) (simp_all add: chunkCalls_def isChunk_def)
    have "chunkCalls (snd (snd (uploadOne d b fl v st srv w))) = puts"
      by (cases res) (simp_all add: uploadOne_large [OF assms(2,1)] Let_def assms(3) Pair x)
    with p(2) show ?thesis by simp
  qed
qed

text \<open>
  Claim C2. For a file of size S above the small-file threshold, whose folder was provisioned
  and whose upload session was opened, the chunk requests of \<open>uploadOne\<close> are the chunks
  0, 1, 2, ... in order, up to and including the first whose reply is not accepted; the
  \<open>i\<close>-th sends the slice from \<open>i * C\<close> to \<open>min ((i + 1) * C) S\<close> under the header
  \<open>Content-Range: bytes start-(end-1)/S\<close>, with \<open>C = 5 * 1024 * 1024\<close>. When every
  reply is accepted there are exactly \<open>ceil (S / C)\<close> of them. A chunk is requested only
  after every earlier chunk was accepted, and the ranges of the chunks, laid end to end, are
  the bytes 0 to \<open>S - 1\<close> once each.
\<close>

theorem chunked_upload_requests:
  assumes "3999999 < f_size fl" and "ensureFolder d b st w = (Inr pathSub, w1, cs)"
    and "createUploadSessionReply srv = Inr sess"
  shows "chunkCalls (snd (snd (uploadOne d b fl v st srv w))) =
           map (nthChunk (uploadUrl sess) (f_size fl))
             (upToFirst (\<lambda>i. accepted (fetchPut srv (nthChunk (uploadUrl sess) (f_size fl) i)))
                [0..<chunkCount (f_size fl)])
       \<and> ((\<forall>i < chunkCount (f_size fl).
              accepted (fetchPut srv (nthChunk (uploadUrl sess) (f_size fl) i))) \<longrightarrow>
            chunkCalls (snd (snd (uploadOne d b fl v st srv w))) =
              map (nthChunk (uploadUrl sess) (f_size fl)) [0..<chunkCount (f_size fl)]
            \<and> length (chunkCalls (snd (snd (uploadOne d b fl v st srv w))))
                = (f_size fl + 5 * 1024 * 1024 - 1) div (5 * 1024 * 1024))
       \<and> (\<forall>i j. i < length (chunkCalls (snd (snd (uploadOne d b fl v st srv w)))) \<and> j < i \<longrightarrow>
              accepted (fetchPut srv (nthChunk (uploadUrl sess) (f_size fl) j)))
       \<and> concat (map (\<lambda>i. [i * chunkSize..<min ((i + 1) * chunkSize) (f_size fl)])
                    [0..<chunkCount (f_size fl)]) = [0..<f_size fl]"
proof -
  let ?P = "\<lambda>i. accepted (fetchPut srv (nthChunk (uploadUrl sess) (f_size fl) i))"
  let ?calls = "chunkCalls (snd (snd (uploadOne d b fl v st srv w)))"
  have a: "?calls = map (nthChunk (uploadUrl sess) (f_size fl)) (upToFirst ?P [0..<chunkCount (f_size fl)])"
    using assms by (rule uploadOne_chunkCalls)
  have b: "?calls = map (nthChunk (uploadUrl sess) (f_size fl)) [0..<chunkCount (f_size fl)]
      \<and> length ?calls = (f_size fl + 5 * 1024 * 1024 - 1) div (5 * 1024 * 1024)"
    if "\<forall>i < chunkCount (f_size fl). ?P i"
  proof -
    from that have "upToFirst ?P [0..<chunkCount (f_size fl)] = [0..<chunkCount (f_size fl)]"
      by (intro upToFirst_all) simp
    then show ?thesis by (simp add: a chunkCount_def chunkSize_def)
  qed
  have c: "?P j" if "i < length ?calls" "j < i" for i j
  proof -
    from that(1) have i: "i < length (upToFirst ?P [0..<chunkCount (f_size fl)])" by (simp add: a)
    then have "?P ([0..<chunkCount (f_size fl)] ! j)" using that(2) by (rule upToFirst_accepted_before)
    moreover obtain n where "n \<le> length [0..<chunkCount (f_size fl)]"
      "upToFirst ?P [0..<chunkCount (f_size fl)] = take n [0..<chunkCount (f_size fl)]"
      using upToFirst_prefix by blast
    with i that(2) have "j < chunkCount (f_size fl)" by simp
    ultimately show ?thesis by simp
  qed
  from a b c chunk_ranges_partition show ?thesis by blast
qed

text \<open>
  Claim C8. Once the folder is provisioned, a file of exactly 3,999,999 bytes is written by
  the single direct content write and nothing else, and a file of exactly 4,000,000 bytes
  goes through the upload session: the next request opens the session, and every request
  after it is a chunk of the session or the final read of the item.
\<close>

theorem uploadOne_threshold:
  assumes "ensureFolder d b st w = (Inr pathSub, w1, cs)"
  shows "(f_size fl = 3999999 \<longrightarrow>
            uploadOne d b fl v st srv w =
              (putContentReply srv, w1,
               cs @ [PUT_content (ItemContent d (targetOf b pathSub (buildTargetFileName fl v st)))]))
       \<and> (f_size fl = 4000000 \<longrightarrow>
            (\<exists>res rest. uploadOne d b fl v st srv w =
                 (res, w1,
                  cs @ POST_session (ItemUploadSession d
                         (targetOf b pathSub (buildTargetFileName fl v st))) # rest)
               \<and> (\<forall>c \<in> set rest. isChunk c
                     \<or> c = GET (DriveItem d (targetOf b pathSub (buildTargetFileName fl v st))))))"
proof (intro conjI impI)
  assume "f_size fl = 3999999"
  then show "uploadOne d b fl v st srv w =
      (putContentReply srv, w1,
       cs @ [PUT_content (ItemContent d (targetOf b pathSub (buildTargetFileName fl v st)))])"
    using assms by (simp add: uploadOne_small)
next
  assume s: "f_size fl = 4000000"
  then have big: "3999999 < f_size fl" by simp
  let ?t = "targetOf b pathSub (buildTargetFileName fl v st)"
  show "\<exists>res rest. uploadOne d b fl v st srv w =
      (res, w1, cs @ POST_session (ItemUploadSession d ?t) # rest)
      \<and> (\<forall>c \<in> set rest. isChunk c \<or> c = GET (DriveItem d ?t))"
  proof (cases "createUploadSessionReply srv")
    case (Inl e)
    then have "uploadOne d b fl v st srv w = (Inl e, w1, cs @ POST_session (ItemUploadSession d ?t) # [])"
      by (simp add: uploadOne_large [OF assms big] Let_def)
    then show ?thesis by fastforce
  next
    case (Inr sess)
    obtain res puts where u: "uploadChunks (fetchPut srv) (uploadUrl sess) (f_size fl) 0 = (res, puts)"
      by (cases "uploadChunks (fetchPut srv) (uploadUrl sess) (f_size fl) 0")
    have "snd (uploadChunks (fetchPut srv) (uploadUrl sess) (f_size fl) 0) =
      map (nthChunk (uploadUrl sess) (f_size fl))
       (upToFirst (\<lambda>i. accepted (fetchPut srv (nthChunk (uploadUrl sess) (f_size fl) i)))
          [0..<chunkCount (f_size fl)])"
      by (rule uploadChunks_requests) simp
    with u have p: "\<forall>c \<in> set puts. isChunk c"
      by (auto simp: isChunk_def nthChunk_def)
    show ?thesis
    proof (cases res)
      case (Inl e)
      then have "uploadOne d b fl v st srv w = (Inl e, w1, cs @ POST_session (ItemUploadSession d ?t) # puts)"
        using Inr u by (simp add: uploadOne_large [OF assms big] Let_def)
      with p show ?thesis by blast
    next
      case r: (Inr x)
      then have "uploadOne d b fl v st srv w =
          (finalItemReply srv, w1,
           cs @ POST_session (ItemUploadSession d ?t) # (puts @ [GET (DriveItem d ?t)]))"
        using Inr u by (simp add: uploadOne_large [OF assms big] Let_def)
      moreover have "\<forall>c \<in> set (puts @ [GET (DriveItem d ?t)]). isChunk c \<or> c = GET (DriveItem d ?t)"
        using p by auto
      ultimately show ?thesis by blast
    qed
  qed
qed

text \<open>
  Claim C6 says that a chunk response is accepted exactly when its status is 200, 201 or
  202. The guard of the loop is \<^verbatim>\<open>!res.ok && ![200,201,202].includes(res.status)\<close>, and
  \<open>res.ok\<close> holds for every status from 200 to 299: a reply with the status 204 is accepted
  and the next chunk is sent.
\<close>

theorem chunk_status_counterexample:
  "(204::nat) \<notin> {200, 201, 202}
   \<and> uploadChunks (\<lambda>c. Response 204 ''No Content'' None) ''u'' 6000000 0 =
       (Inr (), [PUT_chunk ''u'' ''5242880'' ''bytes 0-5242879/6000000'' 0 5242880,
                 PUT_chunk ''u'' ''757120'' ''bytes 5242880-5999999/6000000'' 5242880 6000000])"
  by (simp add: uploadChunks.simps chunkSize_def String_nat.simps ok_def char_evals)

text \<open>
  Claim C6, amended. A chunk response is accepted exactly when its status lies between 200
  and 299, which includes 200, 201 and 202: the loop then goes on from the end of the chunk.
  For every other status the upload stops with an error that carries the status, the status
  text and the body of the response (the empty text when the body cannot be read), and the
  chunk just sent is the last request of the loop.
\<close>

theorem chunk_status_accepted:
  assumes "start < fsize"
    and "fetch (chunkRequest url fsize start) = Response status statusText body"
  shows "(200 \<le> status \<and> status \<le> 299 \<longrightarrow>
            uploadChunks fetch url fsize start =
              (fst (uploadChunks fetch url fsize (min (start + chunkSize) fsize)),
               chunkRequest url fsize start
                 # snd (uploadChunks fetch url fsize (min (start + chunkSize) fsize))))
       \<and> (\<not> (200 \<le> status \<and> status \<le> 299) \<longrightarrow>
            uploadChunks fetch url fsize start =
              (Inl (UploadChunkFailed status statusText (case body of None \<Rightarrow> [] | Some t \<Rightarrow> t)),
               [chunkRequest url fsize start]))"
  using assms(2)
  by (cases "uploadChunks fetch url fsize (min (start + chunkSize) fsize)")
     (simp add: uploadChunks_step [OF assms(1)] successStatus_def)


lemmas file_evals = buildTargetFileName_def timestamp_def safeBaseOf_def safeExtOf_def baseOf_def
  extOf_def lastIndexOf_def sanitize_def targetOf_def

lemma exampleTarget:
  "targetOf (Some ''/Photos/'') ''2024/05'' (buildTargetFileName fl ''Oak Grove'' exampleStamp)
     = ''Photos/2024/05/20240507090359_Oak-Grove_Gate.jpg''"
  if "f_name fl = Some ''Gate.JPG''"
  using that by (simp add: file_evals path_evals char_evals exampleStamp_def)

theorem chunk_status_accepted_witness:
  "(0::nat) < 6000000
   \<and> uploadChunks (\<lambda>c. Response 404 ''Not Found'' (Some ''gone'')) ''u'' 6000000 0 =
       (Inl (UploadChunkFailed 404 ''Not Found'' ''gone''), [chunkRequest ''u'' 6000000 0])"
proof -
  have h1: "(0::nat) < 6000000" by simp
  have h2: "(\<lambda>c. Response 404 ''Not Found'' (Some ''gone'')) (chunkRequest ''u'' 6000000 0)
      = Response 404 ''Not Found'' (Some ''gone'')" by simp
  show ?thesis using h1 chunk_status_accepted [OF h1 h2] by simp
qed

lemma exampleLargeUpload:
  "uploadOne ''D'' (Some ''/Photos/'') largeFile ''Oak Grove'' exampleStamp exampleServer exampleStore =
       (Inr \<lparr>webUrl = Some ''https://sp/large.jpg''\<rparr>,
        \<lparr>folders = {(''D'', ''Photos/2024/05''), (''D'', ''Photos/2024''), (''D'', ''Photos'')},
         refuses = {}\<rparr>,
        [GET (DriveItem ''D'' ''Photos''),
         GET (DriveItem ''D'' ''Photos/2024''),
         POST_folder (ItemChildren ''D'' ''Photos'') ''2024'',
         GET (DriveItem ''D'' ''Photos/2024/05''),
         POST_folder (ItemChildren ''D'' ''Photos/2024'') ''05'',
         POST_session (ItemUploadSession ''D'' ''Photos/2024/05/20240507090359_Oak-Grove_Gate.jpg''),
         PUT_chunk ''https://sp/session'' ''4000000'' ''bytes 0-3999999/4000000'' 0 4000000,
         GET (DriveItem ''D'' ''Photos/2024/05/20240507090359_Oak-Grove_Gate.jpg'')])"
proof -
  have s: "3999999 < f_size largeFile" "f_name largeFile = Some ''Gate.JPG''"
    "f_size largeFile = 4000000"
    by (simp_all add: largeFile_def)
  have c: "uploadChunks (\<lambda>c. Response 202 ''Accepted'' None) ''https://sp/session'' 4000000 0 =
      (Inr (), [PUT_chunk ''https://sp/session'' ''4000000'' ''bytes 0-3999999/4000000'' 0 4000000])"
    by (simp add: uploadChunks.simps chunkSize_def String_nat.simps ok_def char_evals)
  show ?thesis
    by (simp add: uploadOne_large [OF exampleFolder s(1)] exampleTarget [OF s(2)] s(3) c
        exampleServer_def Let_def)
qed

theorem uploadOne_threshold_witness:
  "f_size smallFile = 3999999
   \<and> uploadOne ''D'' (Some ''/Photos/'') smallFile ''Oak Grove'' exampleStamp exampleServer exampleStore =
       (Inr \<lparr>webUrl = Some ''https://sp/small.jpg''\<rparr>,
        \<lparr>folders = {(''D'', ''Photos/2024/05''), (''D'', ''Photos/2024''), (''D'', ''Photos'')},
         refuses = {}\<rparr>,
        [GET (DriveItem ''D'' ''Photos''),
         GET (DriveItem ''D'' ''Photos/2024''),
         POST_folder (ItemChildren ''D'' ''Photos'') ''2024'',
         GET (DriveItem ''D'' ''Photos/2024/05''),
         POST_folder (ItemChildren ''D'' ''Photos/2024'') ''05'',
         PUT_content (ItemContent ''D'' ''Photos/2024/05/20240507090359_Oak-Grove_Gate.jpg'')])
   \<and> f_size largeFile = 4000000
   \<and> uploadOne ''D'' (Some ''/Photos/'') largeFile ''Oak Grove'' exampleStamp exampleServer exampleStore =
       (Inr \<lparr>webUrl = Some ''https://sp/large.jpg''\<rparr>,
        \<lparr>folders = {(''D'', ''Photos/2024/05''), (''D'', ''Photos/2024''), (''D'', ''Photos'')},
         refuses = {}\<rparr>,
        [GET (DriveItem ''D'' ''Photos''),
         GET (DriveItem ''D'' ''Photos/2024''),
         POST_folder (ItemChildren ''D'' ''Photos'') ''2024'',
         GET (DriveItem ''D'' ''Photos/2024/05''),
         POST_folder (ItemChildren ''D'' ''Photos/2024'') ''05'',
         POST_session (ItemUploadSession ''D'' ''Photos/2024/05/20240507090359_Oak-Grove_Gate.jpg''),
         PUT_chunk ''https://sp/session'' ''4000000'' ''bytes 0-3999999/4000000'' 0 4000000,
         GET (DriveItem ''D'' ''Photos/2024/05/20240507090359_Oak-Grove_Gate.jpg'')])"
proof -
  have s: "f_size smallFile = 3999999" "f_name smallFile = Some ''Gate.JPG''"
    by (simp_all add: smallFile_def)
  have l: "f_size largeFile = 4000000" by (simp add: largeFile_def)
  show ?thesis
    using s(1) l uploadOne_threshold [OF exampleFolder, of smallFile "''Oak Grove''" exampleServer]
    by (simp add: exampleTarget [OF s(2)] exampleLargeUpload) (simp add: exampleServer_def)
qed

theorem chunked_upload_requests_witness:
  "3999999 < f_size bigFile
   \<and> createUploadSessionReply exampleServer = Inr \<lparr>uploadUrl = ''https://sp/session''\<rparr>
   \<and> chunkCalls (snd (snd (uploadOne ''D'' (Some ''/Photos/'') bigFile ''Oak Grove'' exampleStamp
         exampleServer exampleStore))) =
       [PUT_chunk ''https://sp/session'' ''5242880'' ''bytes 0-5242879/6000000'' 0 5242880,
        PUT_chunk ''https://sp/session'' ''757120'' ''bytes 5242880-5999999/6000000'' 5242880 6000000]"
proof -
  have h1: "3999999 < f_size bigFile" by (simp add: bigFile_def)
  have h3: "createUploadSessionReply exampleServer = Inr \<lparr>uploadUrl = ''https://sp/session''\<rparr>"
    by (simp add: exampleServer_def)
  have n: "chunkCount (f_size bigFile) = 2" by (simp add: chunkCount_def chunkSize_def bigFile_def)
  have u: "[0..<2] = [0, Suc 0]" by (simp add: upt_rec)
  have a: "accepted (fetchPut exampleServer c)" for c
    by (simp add: exampleServer_def accepted_def successStatus_def)
  have e: "nthChunk ''https://sp/session'' (f_size bigFile) 0
        = PUT_chunk ''https://sp/session'' ''5242880'' ''bytes 0-5242879/6000000'' 0 5242880"
      "nthChunk ''https://sp/session'' (f_size bigFile) (Suc 0)
        = PUT_chunk ''https://sp/session'' ''757120'' ''bytes 5242880-5999999/6000000'' 5242880 6000000"
    by (simp_all add: nthChunk_def chunkSize_def bigFile_def String_nat.simps char_evals)
  show ?thesis
    using h1 h3 chunked_upload_requests [OF h1 exampleFolder h3, of "''Oak Grove''"]
    by (simp add: n u a e)
qed

subsection \<open>The photo value and its JSON text\<close>


lemma unhex_hexDigit: "n < 16 \<Longrightarrow> unhex (hexDigit n) = Some n"
  by (auto simp: unhex_def hexDigit_def Let_def)

lemma unicodeEscape_control:
  "(of_char c :: nat) < 32 \<Longrightarrow>
     unicodeEscape (CHR ''0'') (CHR ''0'') (hexDigit ((of_char c :: nat) div 16))
       (hexDigit ((of_char c :: nat) mod 16)) = Some c"
proof -
  assume a: "(of_char c :: nat) < 32"
  have z: "unhex (CHR ''0'') = Some 0" by (simp add: unhex_def)
  have d: "(of_char c :: nat) div 16 < 16" using a by simp
  have m: "(of_char c :: nat) mod 16 < 16" by simp
  show ?thesis
    using a by (simp add: unicodeEscape_def z unhex_hexDigit [OF d] unhex_hexDigit [OF m])
qed

lemma parse_quoteChar:
  "parseStringBody (quoteChar c @ t) = map_option (\<lambda>(v, rest). (c # v, rest)) (parseStringBody t)"
proof -
  consider "c = CHR 0x22" | "c = CHR 0x5C" | "c = CHR 0x08" | "c = CHR 0x09" | "c = CHR 0x0A"
    | "c = CHR 0x0C" | "c = CHR 0x0D"
    | "c \<notin> {CHR 0x22, CHR 0x5C, CHR 0x08, CHR 0x09, CHR 0x0A, CHR 0x0C, CHR 0x0D}" "(of_char c :: nat) < 32"
    | "c \<notin> {CHR 0x22, CHR 0x5C, CHR 0x08, CHR 0x09, CHR 0x0A, CHR 0x0C, CHR 0x0D}" "\<not> (of_char c :: nat) < 32"
    by blast
  then show ?thesis
  proof cases
    case 8
    then show ?thesis
      by (simp add: quoteChar_def unicodeEscape_control)
  next
    case 9
    then show ?thesis by (simp add: quoteChar_def)
  qed (simp_all add: quoteChar_def simpleEscape_def)
qed

lemma parse_quoted_body:
  "parseStringBody (concat (map quoteChar s) @ CHR 0x22 # rest) = Some (s, rest)"
  by (induction s) (simp_all add: parse_quoteChar)

lemma parse_quoteJSONString:
  "quoteJSONString s @ rest = CHR 0x22 # (concat (map quoteChar s) @ CHR 0x22 # rest)"
  by (simp add: quoteJSONString_def)

lemma skipWs_simps:
  "skipWs (CHR 0x22 # s) = CHR 0x22 # s" "skipWs (CHR '','' # s) = CHR '','' # s"
  "skipWs (CHR '']'' # s) = CHR '']'' # s" "skipWs (CHR ''['' # s) = CHR ''['' # s" "skipWs [] = []"
  by (simp_all add: skipWs_def isJsonWs_def)

lemma parseElements_more:
  "parseElements (quoteJSONString x @ CHR '','' # rest) = map_option (\<lambda>vs. x # vs) (parseElements rest)"
  by (subst parseElements.simps)
     (simp add: quoteJSONString_def skipWs_simps parse_quoted_body)

lemma parseElements_last: "parseElements (quoteJSONString x @ '']'') = Some [x]"
  by (subst parseElements.simps)
     (simp add: quoteJSONString_def skipWs_simps parse_quoted_body)

lemma parseElements_join:
  "parseElements (joinWith '','' (map quoteJSONString (x # xs)) @ '']'') = Some (x # xs)"
proof (induction xs arbitrary: x)
  case Nil
  show ?case by (simp add: parseElements_last)
next
  case (Cons y ys)
  have "parseElements (quoteJSONString x @ CHR '','' # (joinWith '','' (map quoteJSONString (y # ys)) @ '']''))
      = Some (x # y # ys)"
    by (simp only: parseElements_more Cons.IH option.map)
  then show ?case by simp
qed

lemma JSON_parse_elements:
  "JSON_parse (CHR ''['' # quoteJSONString x @ rest) = parseElements (quoteJSONString x @ rest)"
  by (simp add: JSON_parse_def quoteJSONString_def skipWs_simps)

lemma JSON_roundtrip: "JSON_parse (JSON_stringify xs) = Some xs"
proof (cases xs)
  case Nil
  then show ?thesis by (simp add: JSON_parse_def JSON_stringify_def skipWs_simps)
next
  case (Cons x ys)
  obtain rest where r: "joinWith '','' (map quoteJSONString (x # ys)) @ '']'' = quoteJSONString x @ rest"
    by (cases ys) simp_all
  have "JSON_parse (CHR ''['' # (joinWith '','' (map quoteJSONString (x # ys)) @ '']''))
      = parseElements (joinWith '','' (map quoteJSONString (x # ys)) @ '']'')"
    unfolding r by (rule JSON_parse_elements)
  then show ?thesis
    unfolding Cons JSON_stringify_def by (simp only: parseElements_join append_Cons append_Nil)
qed

text \<open>
  Claim C9. For a field of the kind \<open>hyperlinkOrPicture\<close>, \<open>formatPhotoValue\<close> returns exactly
  the first URL of the list, and the empty string for the empty list. For a field of any
  other kind, or of no recorded kind, it returns a JSON text which \<open>JSON.parse\<close> turns back
  into the original list of URLs, in the original order.
\<close>

theorem formatPhotoValue_roundtrip:
  "(tbn fieldName = Some ''hyperlinkOrPicture'' \<longrightarrow>
      (urls = [] \<longrightarrow> formatPhotoValue tbn fieldName urls = [])
      \<and> (\<forall>u us. urls = u # us \<longrightarrow> formatPhotoValue tbn fieldName urls = u))
   \<and> (tbn fieldName \<noteq> Some ''hyperlinkOrPicture'' \<longrightarrow>
        JSON_parse (formatPhotoValue tbn fieldName urls) = Some urls)"
  by (auto simp: formatPhotoValue_def JSON_roundtrip)


theorem formatPhotoValue_roundtrip_witness:
  "formatPhotoValue [''PhotoUrl'' \<mapsto> ''hyperlinkOrPicture''] ''PhotoUrl''
       [''https://sp/a.jpg'', ''https://sp/b.jpg''] = ''https://sp/a.jpg''
   \<and> formatPhotoValue [''PhotoUrl'' \<mapsto> ''text''] ''PhotoUrl'' [''u1'', ''u2'']
       = ''['' @ [CHR 0x22] @ ''u1'' @ [CHR 0x22] @ '','' @ [CHR 0x22] @ ''u2'' @ [CHR 0x22] @ '']''
   \<and> JSON_parse (formatPhotoValue [''PhotoUrl'' \<mapsto> ''text''] ''PhotoUrl''
         [''https://sp/a.jpg'', CHR 0x22 # CHR 0x5C # CHR 0x01 # ''b.jpg''])
       = Some [''https://sp/a.jpg'', CHR 0x22 # CHR 0x5C # CHR 0x01 # ''b.jpg'']"
proof -
  have h1: "[''PhotoUrl'' \<mapsto> ''hyperlinkOrPicture''] ''PhotoUrl'' = Some ''hyperlinkOrPicture''"
    by simp
  have h2: "[''PhotoUrl'' \<mapsto> ''text''] ''PhotoUrl'' \<noteq> Some ''hyperlinkOrPicture''"
    by simp
  have e: "formatPhotoValue [''PhotoUrl'' \<mapsto> ''text''] ''PhotoUrl'' [''u1'', ''u2'']
       = ''['' @ [CHR 0x22] @ ''u1'' @ [CHR 0x22] @ '','' @ [CHR 0x22] @ ''u2'' @ [CHR 0x22] @ '']''"
    by (simp add: formatPhotoValue_def JSON_stringify_def quoteJSONString_def quoteChar_def)
  show ?thesis
    using h1 h2 e
      formatPhotoValue_roundtrip [of "[''PhotoUrl'' \<mapsto> ''hyperlinkOrPicture'']" "''PhotoUrl''"
        "[''https://sp/a.jpg'', ''https://sp/b.jpg'']"]
      formatPhotoValue_roundtrip [of "[''PhotoUrl'' \<mapsto> ''text'']" "''PhotoUrl''"
        "[''https://sp/a.jpg'', CHR 0x22 # CHR 0x5C # CHR 0x01 # ''b.jpg'']"]
    by simp
qed

subsection \<open>The payload of a submission\<close>
















subsection \<open>Target file names\<close>


lemma isDigit_digit: "(k::nat) < 10 \<Longrightarrow> isDigit (char_of (48 + k))"
  by (simp add: isDigit_def)

lemma String_nat_digits: "\<forall>c \<in> set (String_nat n). isDigit c"
proof (induction n rule: String_nat.induct)
  case (1 n)
  show ?case
  proof (cases "n < 10")
    case True
    then show ?thesis by (subst String_nat.simps) (simp add: isDigit_digit)
  next
    case False
    have "n mod 10 < 10" by simp
    then have "isDigit (char_of (48 + n mod 10))" by (rule isDigit_digit)
    with False 1 show ?thesis by (subst String_nat.simps) simp
  qed
qed

lemma String_nat_length1: "n < 10 \<Longrightarrow> length (String_nat n) = 1"
  by (subst String_nat.simps) simp

lemma String_nat_length2: "10 \<le> n \<Longrightarrow> n < 100 \<Longrightarrow> length (String_nat n) = 2"
  by (subst String_nat.simps) (simp add: String_nat_length1)

lemma String_nat_length3: "100 \<le> n \<Longrightarrow> n < 1000 \<Longrightarrow> length (String_nat n) = 3"
  by (subst String_nat.simps) (simp add: String_nat_length2)

lemma String_nat_length4: "1000 \<le> n \<Longrightarrow> n < 10000 \<Longrightarrow> length (String_nat n) = 4"
  by (subst String_nat.simps) (simp add: String_nat_length3)

lemma padStart2_length: "n < 100 \<Longrightarrow> length (padStart 2 (CHR ''0'') (String_nat n)) = 2"
  by (cases "n < 10") (simp_all add: padStart_def String_nat_length1 String_nat_length2)

lemma padStart2_digits: "\<forall>c \<in> set (padStart 2 (CHR ''0'') (String_nat n)). isDigit c"
  using String_nat_digits [of n] by (auto simp: padStart_def isDigit_def)

lemma timestamp_shape:
  assumes "validStamp st" "1000 \<le> getFullYear st" "getFullYear st \<le> 9999"
  shows "length (timestamp st) = 14 \<and> (\<forall>c \<in> set (timestamp st). isDigit c)"
proof -
  have y: "String_int (getFullYear st) = String_nat (nat (getFullYear st))"
    using assms(2) by (simp add: String_int_def)
  have "length (String_nat (nat (getFullYear st))) = 4"
    using assms(2,3) by (intro String_nat_length4) simp_all
  moreover have "\<forall>c \<in> set (String_nat (nat (getFullYear st))). isDigit c"
    by (rule String_nat_digits)
  ultimately show ?thesis
    using assms(1) padStart2_digits
    by (auto simp: timestamp_def y validStamp_def padStart2_length)
qed

lemma set_replaceRuns: "set (replaceRuns P r s) \<subseteq> insert r {c \<in> set s. \<not> P c}"
  by (induction P r s rule: replaceRuns.induct) auto

lemma set_stripBoth: "set (stripBoth P s) \<subseteq> set s"
proof -
  have "set (dropWhile P (rev (dropWhile P s))) \<subseteq> set (rev (dropWhile P s))"
    by (rule set_dropWhileD [THEN subsetI])
  also have "\<dots> \<subseteq> set s" using set_dropWhileD [of _ P s] by auto
  finally show ?thesis by (simp add: stripBoth_def)
qed

lemma last_dropWhile_eq: "dropWhile P xs \<noteq> [] \<Longrightarrow> last (dropWhile P xs) = last xs"
  by (induction xs) auto

lemma hd_stripBoth: "stripBoth P s \<noteq> [] \<Longrightarrow> \<not> P (hd (stripBoth P s))"
proof -
  let ?t = "dropWhile P s"
  assume a: "stripBoth P s \<noteq> []"
  then have d: "dropWhile P (rev ?t) \<noteq> []" by (simp add: stripBoth_def)
  have t: "?t \<noteq> []"
  proof
    assume e: "?t = []"
    have "dropWhile P (rev ?t) = []" unfolding e by simp
    with d show False ..
  qed
  have "hd (stripBoth P s) = last (dropWhile P (rev ?t))"
    using d by (simp add: stripBoth_def hd_rev)
  also have "\<dots> = last (rev ?t)" using d by (rule last_dropWhile_eq)
  also have "\<dots> = hd ?t" using t by (simp add: last_rev)
  finally show ?thesis using t hd_dropWhile [of P s] by simp
qed

lemma last_stripBoth: "stripBoth P s \<noteq> [] \<Longrightarrow> \<not> P (last (stripBoth P s))"
proof -
  assume a: "stripBoth P s \<noteq> []"
  then have d: "dropWhile P (rev (dropWhile P s)) \<noteq> []" by (simp add: stripBoth_def)
  then have "last (stripBoth P s) = hd (dropWhile P (rev (dropWhile P s)))"
    by (simp add: stripBoth_def last_rev)
  with d hd_dropWhile [of P "rev (dropWhile P s)"] show ?thesis by simp
qed


lemma sanitize_uncut: "sanitize seg = take 60 (uncut seg)"
  by (simp add: sanitize_def uncut_def)

lemma set_uncut: "\<forall>c \<in> set (uncut seg). isAlnum c \<or> c = CHR ''-''"
proof -
  have "set (uncut seg) \<subseteq>
      set (replaceRuns (\<lambda>c. c = CHR ''-'') (CHR ''-'')
        (replaceRuns (\<lambda>c. \<not> isAlnum c) (CHR ''-'') (trim seg)))"
    unfolding uncut_def by (rule set_stripBoth)
  also have "\<dots> \<subseteq> insert (CHR ''-'')
      (set (replaceRuns (\<lambda>c. \<not> isAlnum c) (CHR ''-'') (trim seg)))"
    using set_replaceRuns [of "\<lambda>c. c = CHR ''-''" "CHR ''-''"] by blast
  also have "\<dots> \<subseteq> insert (CHR ''-'') {c. isAlnum c}"
    using set_replaceRuns [of "\<lambda>c. \<not> isAlnum c" "CHR ''-''" "trim seg"] by auto
  finally show ?thesis by auto
qed

lemma sanitize_shape:
  "length (sanitize seg) \<le> 60
   \<and> (\<forall>c \<in> set (sanitize seg). isAlnum c \<or> c = CHR ''-'')
   \<and> (sanitize seg \<noteq> [] \<longrightarrow> hd (sanitize seg) \<noteq> CHR ''-'')
   \<and> (length (uncut seg) \<le> 60 \<and> sanitize seg \<noteq> [] \<longrightarrow> last (sanitize seg) \<noteq> CHR ''-'')"
proof -
  have a: "\<forall>c \<in> set (sanitize seg). isAlnum c \<or> c = CHR ''-''"
    using set_uncut [of seg] by (auto simp: sanitize_uncut dest: in_set_takeD)
  have b: "hd (sanitize seg) \<noteq> CHR ''-''" if "sanitize seg \<noteq> []"
  proof -
    from that have u: "uncut seg \<noteq> []" by (auto simp: sanitize_uncut)
    then have "hd (sanitize seg) = hd (uncut seg)" by (simp add: sanitize_uncut)
    moreover have "hd (uncut seg) \<noteq> CHR ''-''"
      using u hd_stripBoth [of "\<lambda>c. c = CHR ''-''"] unfolding uncut_def by blast
    ultimately show ?thesis by simp
  qed
  have c: "last (sanitize seg) \<noteq> CHR ''-''" if "length (uncut seg) \<le> 60" "sanitize seg \<noteq> []"
  proof -
    from that(1) have e: "sanitize seg = uncut seg" by (simp add: sanitize_uncut)
    with that(2) show ?thesis
      using last_stripBoth [of "\<lambda>c. c = CHR ''-''"] unfolding uncut_def by auto
  qed
  from a b c show ?thesis by (simp add: sanitize_uncut)
qed

lemma lowerChar_not_upper: "\<not> isUpperAscii (lowerChar c)"
  by (auto simp: lowerChar_def isUpperAscii_def Let_def)

lemma toLowerCase_not_upper: "\<forall>c \<in> set (toLowerCase s). \<not> isUpperAscii c"
  by (auto simp: toLowerCase_def lowerChar_not_upper)

text \<open>
  Claim C10 says that for every timestamp the name begins with fourteen digits, and that a
  sanitised segment has hyphens in its interior only. The year is written by \<open>String\<close>
  without padding, so a clock reading in the year 999 gives thirteen digits and the
  fourteenth character is the underscore; and \<open>slice(0, 60)\<close> cuts after the hyphens at the
  ends were stripped, so a segment of 59 letters, a space and a letter is cut to 59 letters
  and a final hyphen.
\<close>

theorem fileName_counterexample:
  "validStamp earlyStamp
   \<and> buildTargetFileName smallFile ''Oak Grove'' earlyStamp = ''9990507090359_Oak-Grove_Gate.jpg''
   \<and> take 14 (buildTargetFileName smallFile ''Oak Grove'' earlyStamp) = ''9990507090359_''
   \<and> \<not> isDigit (CHR ''_'')
   \<and> sanitize (replicate 59 (CHR ''a'') @ '' b'') = replicate 59 (CHR ''a'') @ ''-''
   \<and> last (sanitize (replicate 59 (CHR ''a'') @ '' b'')) = CHR ''-''"
proof -
  have n: "buildTargetFileName smallFile ''Oak Grove'' earlyStamp = ''9990507090359_Oak-Grove_Gate.jpg''"
    by (simp add: file_evals path_evals char_evals earlyStamp_def smallFile_def)
  have r: "replicate 59 (CHR ''a'') = ''aaaaaaaaaaaaaaaaaaaaaaaaaaaaaaaaaaaaaaaaaaaaaaaaaaaaaaaaaaa''"
    by (simp add: eval_nat_numeral)
  have s: "sanitize (replicate 59 (CHR ''a'') @ '' b'') = replicate 59 (CHR ''a'') @ ''-''"
    unfolding r by (simp add: sanitize_def char_evals)
  have l: "last (replicate 59 (CHR ''a'') @ ''-'') = CHR ''-''" by simp
  show ?thesis
    unfolding s l using n by (simp add: validStamp_def earlyStamp_def isDigit_def)
qed

text \<open>
  Claim C10, amended. For every file, village tag and timestamp, \<open>buildTargetFileName\<close>
  returns a non-empty name made of the timestamp, an underscore, the safe base and the safe
  extension. For a valid date in the years 1000 to 9999 the timestamp is fourteen digits.
  The safe base is the literal \<open>upload\<close> when both the village tag and the original base name
  sanitise to the empty string, and otherwise the non-empty sanitised segments joined by an
  underscore. A sanitised segment is at most 60 characters long, holds only ASCII letters,
  digits and hyphens, does not begin with a hyphen, and does not end with one when nothing
  was cut off. The extension, when present, is a dot and the lower-cased extension, which
  holds no upper-case ASCII letter.
\<close>

theorem buildTargetFileName_shape:
  "buildTargetFileName fl v st \<noteq> []
   \<and> buildTargetFileName fl v st = timestamp st @ ''_'' @ safeBaseOf fl v @ safeExtOf fl
   \<and> (validStamp st \<and> 1000 \<le> getFullYear st \<and> getFullYear st \<le> 9999 \<longrightarrow>
        length (timestamp st) = 14 \<and> (\<forall>c \<in> set (timestamp st). isDigit c))
   \<and> (sanitize v = [] \<and> sanitize (baseOf fl) = [] \<longrightarrow> safeBaseOf fl v = ''upload'')
   \<and> safeBaseOf fl v \<in> {''upload'', sanitize v, sanitize (baseOf fl),
                          sanitize v @ ''_'' @ sanitize (baseOf fl)}
   \<and> length (sanitize seg) \<le> 60
   \<and> (\<forall>c \<in> set (sanitize seg). isAlnum c \<or> c = CHR ''-'')
   \<and> (sanitize seg \<noteq> [] \<longrightarrow> hd (sanitize seg) \<noteq> CHR ''-'')
   \<and> (length (uncut seg) \<le> 60 \<and> sanitize seg \<noteq> [] \<longrightarrow> last (sanitize seg) \<noteq> CHR ''-'')
   \<and> (extOf fl \<noteq> [] \<longrightarrow> safeExtOf fl = ''.'' @ toLowerCase (extOf fl))
   \<and> (extOf fl = [] \<longrightarrow> safeExtOf fl = [])
   \<and> (\<forall>c \<in> set (toLowerCase (extOf fl)). \<not> isUpperAscii c)"
proof -
  have 1: "buildTargetFileName fl v st \<noteq> []"
    "buildTargetFileName fl v st = timestamp st @ ''_'' @ safeBaseOf fl v @ safeExtOf fl"
    by (simp_all add: buildTargetFileName_def)
  have 2: "validStamp st \<and> 1000 \<le> getFullYear st \<and> getFullYear st \<le> 9999 \<longrightarrow>
        length (timestamp st) = 14 \<and> (\<forall>c \<in> set (timestamp st). isDigit c)"
    using timestamp_shape by blast
  have 3: "sanitize v = [] \<and> sanitize (baseOf fl) = [] \<longrightarrow> safeBaseOf fl v = ''upload''"
    by (simp add: safeBaseOf_def)
  have 4: "safeBaseOf fl v \<in> {''upload'', sanitize v, sanitize (baseOf fl),
                          sanitize v @ ''_'' @ sanitize (baseOf fl)}"
    by (simp add: safeBaseOf_def)
  have 5: "(extOf fl \<noteq> [] \<longrightarrow> safeExtOf fl = ''.'' @ toLowerCase (extOf fl))"
    "(extOf fl = [] \<longrightarrow> safeExtOf fl = [])"
    by (simp_all add: safeExtOf_def Let_def)
  from 1 2 3 4 5 sanitize_shape [of seg] toLowerCase_not_upper [of "extOf fl"]
  show ?thesis by blast
qed

theorem buildTargetFileName_shape_witness:
  "validStamp exampleStamp \<and> 1000 \<le> getFullYear exampleStamp \<and> getFullYear exampleStamp \<le> 9999
   \<and> length (timestamp exampleStamp) = 14
   \<and> buildTargetFileName smallFile ''Oak Grove'' exampleStamp = ''20240507090359_Oak-Grove_Gate.jpg''
   \<and> sanitize ''  '' = [] \<and> sanitize (baseOf \<lparr>f_name = Some ''!!.PNG'', f_size = 1\<rparr>) = []
   \<and> buildTargetFileName \<lparr>f_name = Some ''!!.PNG'', f_size = 1\<rparr> ''  '' exampleStamp
       = ''20240507090359_upload.png''"
proof -
  have h: "validStamp exampleStamp \<and> 1000 \<le> getFullYear exampleStamp \<and> getFullYear exampleStamp \<le> 9999"
    by (simp add: validStamp_def exampleStamp_def)
  have s: "sanitize ''  '' = [] \<and> sanitize (baseOf \<lparr>f_name = Some ''!!.PNG'', f_size = 1\<rparr>) = []"
    "extOf \<lparr>f_name = Some ''!!.PNG'', f_size = 1\<rparr> = ''PNG''"
    by (simp_all add: file_evals path_evals char_evals)
  have t: "timestamp exampleStamp = ''20240507090359''"
    by (simp add: file_evals path_evals char_evals exampleStamp_def)
  have l: "toLowerCase ''PNG'' = ''png''" by (simp add: char_evals)
  have n: "buildTargetFileName smallFile ''Oak Grove'' exampleStamp = ''20240507090359_Oak-Grove_Gate.jpg''"
    by (simp add: file_evals path_evals char_evals exampleStamp_def smallFile_def)
  show ?thesis
    using h s n
      buildTargetFileName_shape [of "\<lparr>f_name = Some ''!!.PNG'', f_size = 1\<rparr>" "''  ''" exampleStamp]
    by (simp add: t l)
qed

subsection \<open>Folder provisioning\<close>
























end
